theory Spec2Isabelle
  imports Main "HOL-Library.Word"
begin

section \<open>The lifx command line: \<^verbatim>\<open>cmd/lifx/light.go\<close>\<close>

text \<open>
  The file holds the three sub-commands of \<^verbatim>\<open>lifx light\<close>: \<^verbatim>\<open>list\<close>, \<^verbatim>\<open>power\<close> and
  \<^verbatim>\<open>color\<close>. Everything they do is a call into the client library, a log entry, or a
  line written to the table on standard output. The embedding therefore threads one
  piece of state through every function: the trace, the chronological list of
  everything the process has done so far. What the library answers to a call is a
  parameter of the model, and it may depend on the whole trace before the call (the
  library keeps state, and the network changes it between two calls). The trace grows
  with every call, so no two calls of a run see the same trace: every sequence of
  answers is the behaviour of some value of the parameter, and a property proved for
  all of them holds whatever the library and the network do.

  The commands are run by cobra between \<^verbatim>\<open>setupClient\<close> and \<^verbatim>\<open>closeClient\<close>, which
  are declared in another file; the functions below are the \<^verbatim>\<open>Run\<close> functions alone.
\<close>

subsection \<open>Data\<close>

type_synonym uint16 = "16 word"
type_synonym uint64 = "64 word"

text \<open>\<^verbatim>\<open>time.Duration\<close> is an \<^verbatim>\<open>int64\<close> count of nanoseconds.\<close>

type_synonym duration = "64 word"

text \<open>\<^verbatim>\<open>common.Color\<close>, with the four fields the command fills in.\<close>

record Color =
  Hue :: uint16
  Saturation :: uint16
  Brightness :: uint16
  Kelvin :: uint16

text \<open>
  Go errors. \<^verbatim>\<open>common.ErrNotFound\<close> is the one sentinel the code compares with; every
  other error is told apart by its text only.
\<close>

datatype error = ErrNotFound | ErrOther string

text \<open>
  A \<^verbatim>\<open>common.Light\<close> is an interface value: an object of the library (\<open>obj\<close>, its
  identity) that answers \<^verbatim>\<open>ID()\<close> without an error.
\<close>

datatype light = Light (obj: nat) (ID: uint64)

text \<open>The package-level flag variables that cobra fills in before \<^verbatim>\<open>Run\<close>.\<close>

record flags =
  flagLightIDs :: "int list"
  flagLightLabels :: "string list"
  flagLightHue :: uint16
  flagLightSaturation :: uint16
  flagLightBrightness :: uint16
  flagLightKelvin :: uint16
  flagLightDuration :: duration

text \<open>
  The conversion \<^verbatim>\<open>uint64(id)\<close> of a Go \<^verbatim>\<open>int\<close>: two's complement, so a negative
  ID wraps around.
\<close>

definition uint64 :: "int \<Rightarrow> uint64" where
  "uint64 i = word_of_int i"

subsection \<open>The trace\<close>

text \<open>Values that a log entry carries, as a field or as an argument of the format.\<close>

datatype val = V_error error | V_strings "string list" | V_string string
  | V_uint64 uint64 | V_int int

datatype level = Debug | Warn | Fatal

text \<open>The lines written to the \<^verbatim>\<open>tabwriter\<close>.\<close>

datatype table_line =
    Header
  | Row uint64 string bool Color
  | Blank

text \<open>
  One event per thing the process does. A call of a library getter is recorded with
  what it returned. \<open>Log lv fld msg args\<close> is
  \<^verbatim>\<open>logger.WithField(fld).<lv>(msg, args...)\<close>, with \<open>fld = None\<close> when the entry has
  no field. \<open>EvTick\<close> and \<open>EvTimeout\<close> are the two receives of the \<^verbatim>\<open>select\<close>.
\<close>

datatype event =
    EvTick
  | EvTimeout
  | Call_GetLights "light list" "error option"
  | Call_GetLightByID uint64 "error + light"
  | Call_GetLightByLabel string "error + light"
  | Call_GetLabel light "error + string"
  | Call_GetPower light "error + bool"
  | Call_GetColor light "error + Color"
  | Client_SetPower bool
  | Client_SetColor Color duration
  | Light_SetPower light bool
  | Light_SetColor light Color duration
  | Usage
  | Log level "(string \<times> val) option" string "val list"
  | Fprint table_line
  | Flush

type_synonym trace = "event list"

text \<open>
  The client library, a black box. The package-level variable \<^verbatim>\<open>client\<close> is declared
  in another file of the package, so the library is a parameter of every function of
  the model: each getter's answer as a function of the trace before the call.
  \<^verbatim>\<open>GetLights\<close> returns a pair in Go, the lights and an error, and the code keeps the
  lights whatever the error is; the other getters' values are only read when the error
  is \<^verbatim>\<open>nil\<close>, so they are sums. The setters' return values are dropped by the code,
  so a setter is an event and nothing else. The last three fields are the getters of
  a \<^verbatim>\<open>common.Light\<close>.
\<close>

record client =
  GetLights :: "trace \<Rightarrow> light list \<times> error option"
  GetLightByID :: "trace \<Rightarrow> uint64 \<Rightarrow> error + light"
  GetLightByLabel :: "trace \<Rightarrow> string \<Rightarrow> error + light"
  GetLabel :: "trace \<Rightarrow> light \<Rightarrow> error + string"
  GetPower :: "trace \<Rightarrow> light \<Rightarrow> error + bool"
  GetColor :: "trace \<Rightarrow> light \<Rightarrow> error + Color"

text \<open>
  Modelled from the spec: the package-level variable \<^verbatim>\<open>logger\<close> is declared in another
  file of the package. Its \<^verbatim>\<open>Fatalln\<close> and \<^verbatim>\<open>Fatalf\<close> write the entry and end the
  process (a fatal termination), so the statements after them never run. A function of
  the model returns \<open>Exit\<close> there, with the trace up to and including the fatal
  entry; \<open>Return v\<close> is a normal return.
\<close>

datatype 'a outcome = Exit | Return 'a

subsection \<open>\<^verbatim>\<open>getLights\<close>\<close>

text \<open>The loop over \<^verbatim>\<open>flagLightIDs\<close>; \<open>lights\<close> is the slice built so far.\<close>

fun getLights_ids :: "client \<Rightarrow> int list \<Rightarrow> light list \<Rightarrow> trace \<Rightarrow> light list outcome \<times> trace" where
  "getLights_ids cl [] lights tr = (Return lights, tr)"
| "getLights_ids cl (i # ids) lights tr =
     (let r = GetLightByID cl tr (uint64 i);
          tr1 = tr @ [Call_GetLightByID (uint64 i) r]
      in case r of
           Inl err \<Rightarrow>
             (Exit, tr1 @ [Log Fatal (Some (''error'', V_error err))
                             ''Could not find light with ID '%v': %v'' [V_int i, V_error err]])
         | Inr light \<Rightarrow> getLights_ids cl ids (lights @ [light]) tr1)"

text \<open>The loop over \<^verbatim>\<open>flagLightLabels\<close>.\<close>

fun getLights_labels :: "client \<Rightarrow> string list \<Rightarrow> light list \<Rightarrow> trace \<Rightarrow> light list outcome \<times> trace" where
  "getLights_labels cl [] lights tr = (Return lights, tr)"
| "getLights_labels cl (label # labels) lights tr =
     (let r = GetLightByLabel cl tr label;
          tr1 = tr @ [Call_GetLightByLabel label r]
      in case r of
           Inl err \<Rightarrow>
             (Exit, tr1 @ [Log Fatal (Some (''error'', V_error err))
                             ''Could not find light with label '%v': %v'' [V_string label, V_error err]])
         | Inr light \<Rightarrow> getLights_labels cl labels (lights @ [light]) tr1)"

text \<open>
  \<^verbatim>\<open>getLights\<close>: two debug entries (both carry the labels, as in the source), then the
  two loops, each behind its \<^verbatim>\<open>len(...) > 0\<close> test.
\<close>

definition getLights :: "client \<Rightarrow> flags \<Rightarrow> trace \<Rightarrow> light list outcome \<times> trace" where
  "getLights cl fl tr =
     (let lights = [];
          tr1 = tr @ [Log Debug (Some (''ids'', V_strings (flagLightLabels fl))) ''Requested IDs'' []];
          tr2 = tr1 @ [Log Debug (Some (''labels'', V_strings (flagLightLabels fl))) ''Requested labels'' []]
      in case (if length (flagLightIDs fl) > 0
               then getLights_ids cl (flagLightIDs fl) lights tr2
               else (Return lights, tr2)) of
           (Exit, tr3) \<Rightarrow> (Exit, tr3)
         | (Return lights1, tr3) \<Rightarrow>
             if length (flagLightLabels fl) > 0
             then getLights_labels cl (flagLightLabels fl) lights1 tr3
             else (Return lights1, tr3))"

subsection \<open>\<^verbatim>\<open>lightPower\<close>\<close>

text \<open>The loop \<^verbatim>\<open>for _, light := range lights { light.SetPower(state) }\<close>.\<close>

fun lightPower_each :: "light list \<Rightarrow> bool \<Rightarrow> trace \<Rightarrow> trace" where
  "lightPower_each [] state tr = tr"
| "lightPower_each (light # lights) state tr =
     lightPower_each lights state (tr @ [Light_SetPower light state])"

definition lightPower :: "client \<Rightarrow> flags \<Rightarrow> string list \<Rightarrow> trace \<Rightarrow> unit outcome \<times> trace" where
  "lightPower cl fl args tr =
     (if length args < 1
      then (Exit, tr @ [Usage, Log Fatal None ''Missing state (on|off)'' []])
      else
        case (if args ! 0 = ''on'' then Some True
              else if args ! 0 = ''off'' then Some False
              else None) of
          None \<Rightarrow>
            (Exit, tr @ [Usage, Log Fatal (Some (''state'', V_string (args ! 0)))
                                  ''Invalid power state requested'' []])
        | Some state \<Rightarrow>
            (case getLights cl fl tr of
               (Exit, tr1) \<Rightarrow> (Exit, tr1)
             | (Return lights, tr1) \<Rightarrow>
                 if length lights > 0
                 then (Return (), lightPower_each lights state tr1)
                 else (Return (), tr1 @ [Client_SetPower state])))"

subsection \<open>\<^verbatim>\<open>lightColor\<close>\<close>

text \<open>The loop \<^verbatim>\<open>for _, light := range lights { light.SetColor(color, flagLightDuration) }\<close>.\<close>

fun lightColor_each :: "light list \<Rightarrow> Color \<Rightarrow> duration \<Rightarrow> trace \<Rightarrow> trace" where
  "lightColor_each [] color d tr = tr"
| "lightColor_each (light # lights) color d tr =
     lightColor_each lights color d (tr @ [Light_SetColor light color d])"

definition lightColor :: "client \<Rightarrow> flags \<Rightarrow> trace \<Rightarrow> unit outcome \<times> trace" where
  "lightColor cl fl tr =
     (if flagLightHue fl = 0 \<and> flagLightSaturation fl = 0 \<and> flagLightBrightness fl = 0
         \<and> flagLightKelvin fl = 0
      then (Exit, tr @ [Usage, Log Fatal None ''Missing color definition'' []])
      else
        case getLights cl fl tr of
          (Exit, tr1) \<Rightarrow> (Exit, tr1)
        | (Return lights, tr1) \<Rightarrow>
            (let color = \<lparr>Hue = flagLightHue fl, Saturation = flagLightSaturation fl,
                          Brightness = flagLightBrightness fl, Kelvin = flagLightKelvin fl\<rparr>
             in if length lights > 0
                then (Return (), lightColor_each lights color (flagLightDuration fl) tr1)
                else (Return (), tr1 @ [Client_SetColor color (flagLightDuration fl)])))"

subsection \<open>\<^verbatim>\<open>lightList\<close>\<close>

text \<open>
  The loop selects on two channels, \<^verbatim>\<open>time.Tick(100 * time.Millisecond)\<close> and
  \<^verbatim>\<open>time.After(flagTimeout)\<close> (\<^verbatim>\<open>flagTimeout\<close> is declared in another file). Which
  case a \<^verbatim>\<open>select\<close> takes is the scheduler's choice and depends on real time: it is
  an input of the model, the schedule, which names the case taken by the \<open>i\<close>-th
  \<^verbatim>\<open>select\<close> the loop executes.
\<close>

datatype select_case = RecvTick | RecvTimeout

text \<open>
  One pass through the body of the \<^verbatim>\<open>for\<close> loop, up to the test of \<^verbatim>\<open>timedOut\<close>:
  the value returned is the new \<^verbatim>\<open>lights\<close> and the flag \<^verbatim>\<open>timedOut\<close>.
\<close>

definition lightList_select ::
  "client \<Rightarrow> select_case \<Rightarrow> light list \<Rightarrow> trace \<Rightarrow> (light list \<times> bool) outcome \<times> trace" where
  "lightList_select cl c lights tr =
     (case c of
        RecvTick \<Rightarrow>
          (let tr1 = tr @ [EvTick];
               (lights1, err) = GetLights cl tr1;
               tr2 = tr1 @ [Call_GetLights lights1 err]
           in case err of
                None \<Rightarrow> (Return (lights1, False), tr2)
              | Some e \<Rightarrow>
                  if e \<noteq> ErrNotFound
                  then (Exit, tr2 @ [Log Fatal (Some (''error'', V_error e)) ''Could not find lights'' []])
                  else (Return (lights1, False), tr2))
      | RecvTimeout \<Rightarrow>
          (let tr1 = tr @ [EvTimeout]
           in if length lights = 0
              then (Exit, tr1 @ [Log Fatal None ''No lights found'' []])
              else (Return (lights, True), tr1)))"

text \<open>
  The \<^verbatim>\<open>for\<close> loop. It has no bound of its own: when the schedule never takes the
  timeout and no call fails, it runs forever, and the value is \<open>None\<close>.
\<close>

partial_function (option) lightList_loop ::
  "client \<Rightarrow> (nat \<Rightarrow> select_case) \<Rightarrow> nat \<Rightarrow> light list \<Rightarrow> trace \<Rightarrow> (light list outcome \<times> trace) option" where
  "lightList_loop cl sched i lights tr =
     (case lightList_select cl (sched i) lights tr of
        (Exit, tr1) \<Rightarrow> Some (Exit, tr1)
      | (Return (lights1, timedOut), tr1) \<Rightarrow>
          if timedOut then Some (Return lights1, tr1)
          else lightList_loop cl sched (Suc i) lights1 tr1)"

text \<open>The loop that writes one row per light, with its three \<^verbatim>\<open>continue\<close>s.\<close>

fun lightList_rows :: "client \<Rightarrow> light list \<Rightarrow> trace \<Rightarrow> trace" where
  "lightList_rows cl [] tr = tr"
| "lightList_rows cl (l # ls) tr =
     (let r1 = GetLabel cl tr l;
          tr1 = tr @ [Call_GetLabel l r1]
      in case r1 of
           Inl err \<Rightarrow>
             lightList_rows cl ls
               (tr1 @ [Log Warn (Some (''light_id'', V_uint64 (ID l))) ''Couldn't get color for light'' []])
         | Inr label \<Rightarrow>
             (let r2 = GetPower cl tr1 l;
                  tr2 = tr1 @ [Call_GetPower l r2]
              in case r2 of
                   Inl err \<Rightarrow>
                     lightList_rows cl ls
                       (tr2 @ [Log Warn (Some (''light_id'', V_uint64 (ID l))) ''Couldn't get color for light'' []])
                 | Inr pwr \<Rightarrow>
                     (let r3 = GetColor cl tr2 l;
                          tr3 = tr2 @ [Call_GetColor l r3]
                      in case r3 of
                           Inl err \<Rightarrow>
                             lightList_rows cl ls
                               (tr3 @ [Log Warn (Some (''light_id'', V_uint64 (ID l)))
                                         ''Couldn't get color for light'' []])
                         | Inr color \<Rightarrow>
                             lightList_rows cl ls (tr3 @ [Fprint (Row (ID l) label pwr color)]))))"

definition lightList :: "client \<Rightarrow> (nat \<Rightarrow> select_case) \<Rightarrow> trace \<Rightarrow> (unit outcome \<times> trace) option" where
  "lightList cl sched tr =
     (case lightList_loop cl sched 0 [] tr of
        None \<Rightarrow> None
      | Some (Exit, tr1) \<Rightarrow> Some (Exit, tr1)
      | Some (Return lights, tr1) \<Rightarrow>
          Some (Return (), lightList_rows cl lights (tr1 @ [Fprint Header]) @ [Fprint Blank, Flush]))"

section \<open>Reading a trace\<close>

text \<open>
  The properties below are stated on the events a run adds to the trace. The functions
  of this section pick out of a list of events the ones a property is about.
\<close>

text \<open>The lookups of single lights, each with its key and with what the library returned.\<close>

datatype lookup_key = ByID uint64 | ByLabel string

fun lookup_of :: "event \<Rightarrow> (lookup_key \<times> (error + light)) option" where
  "lookup_of (Call_GetLightByID i r) = Some (ByID i, r)"
| "lookup_of (Call_GetLightByLabel s r) = Some (ByLabel s, r)"
| "lookup_of _ = None"

definition lookups :: "trace \<Rightarrow> (lookup_key \<times> (error + light)) list" where
  "lookups es = List.map_filter lookup_of es"

text \<open>
  The keys the flags ask for, in the order \<^verbatim>\<open>getLights\<close> reads them: the values of
  \<^verbatim>\<open>--id\<close>, converted, and then the values of \<^verbatim>\<open>--label\<close>.
\<close>

definition requested :: "flags \<Rightarrow> lookup_key list" where
  "requested fl = map (\<lambda>i. ByID (uint64 i)) (flagLightIDs fl) @ map ByLabel (flagLightLabels fl)"

text \<open>
  The setters: \<open>client_setter\<close> holds of a call on the client (all lights),
  \<open>targets\<close> lists the lights on which a per-light setter was called, and
  \<open>SetPower_calls\<close> and \<open>SetColor_calls\<close> list the arguments of every call of
  \<^verbatim>\<open>SetPower\<close> and of \<^verbatim>\<open>SetColor\<close>, on the client or on a light. \<open>setters\<close> keeps
  the setter calls of a trace as they are, in order.
\<close>

fun client_setter :: "event \<Rightarrow> bool" where
  "client_setter (Client_SetPower s) = True"
| "client_setter (Client_SetColor c d) = True"
| "client_setter _ = False"

fun light_setter :: "event \<Rightarrow> light option" where
  "light_setter (Light_SetPower l s) = Some l"
| "light_setter (Light_SetColor l c d) = Some l"
| "light_setter _ = None"

definition targets :: "trace \<Rightarrow> light list" where
  "targets es = List.map_filter light_setter es"

fun SetPower_arg :: "event \<Rightarrow> bool option" where
  "SetPower_arg (Client_SetPower s) = Some s"
| "SetPower_arg (Light_SetPower l s) = Some s"
| "SetPower_arg _ = None"

fun SetColor_args :: "event \<Rightarrow> (Color \<times> duration) option" where
  "SetColor_args (Client_SetColor c d) = Some (c, d)"
| "SetColor_args (Light_SetColor l c d) = Some (c, d)"
| "SetColor_args _ = None"

definition SetPower_calls :: "trace \<Rightarrow> bool list" where
  "SetPower_calls es = List.map_filter SetPower_arg es"

definition SetColor_calls :: "trace \<Rightarrow> (Color \<times> duration) list" where
  "SetColor_calls es = List.map_filter SetColor_args es"

fun is_setter :: "event \<Rightarrow> bool" where
  "is_setter (Client_SetPower s) = True"
| "is_setter (Client_SetColor c d) = True"
| "is_setter (Light_SetPower l s) = True"
| "is_setter (Light_SetColor l c d) = True"
| "is_setter _ = False"

definition setters :: "trace \<Rightarrow> trace" where
  "setters es = filter is_setter es"

text \<open>The calls of \<^verbatim>\<open>client.GetLights\<close>.\<close>

fun is_GetLights :: "event \<Rightarrow> bool" where
  "is_GetLights (Call_GetLights ls err) = True"
| "is_GetLights _ = False"

text \<open>
  What the trace records and what the library answers. \<open>recorded_answer cl tr e\<close>
  holds when the event \<open>e\<close>, happening after the trace \<open>tr\<close>, is no call of a getter,
  or is one that records exactly what the library \<open>cl\<close> answers to that call after
  \<open>tr\<close>. \<open>answered cl tr es\<close> holds when this is so for every event of \<open>es\<close>, each
  taken after \<open>tr\<close> and the events of \<open>es\<close> before it.
\<close>

fun recorded_answer :: "client \<Rightarrow> trace \<Rightarrow> event \<Rightarrow> bool" where
  "recorded_answer cl tr (Call_GetLights ls err) \<longleftrightarrow> GetLights cl tr = (ls, err)"
| "recorded_answer cl tr (Call_GetLightByID i r) \<longleftrightarrow> GetLightByID cl tr i = r"
| "recorded_answer cl tr (Call_GetLightByLabel s r) \<longleftrightarrow> GetLightByLabel cl tr s = r"
| "recorded_answer cl tr (Call_GetLabel l r) \<longleftrightarrow> GetLabel cl tr l = r"
| "recorded_answer cl tr (Call_GetPower l r) \<longleftrightarrow> GetPower cl tr l = r"
| "recorded_answer cl tr (Call_GetColor l r) \<longleftrightarrow> GetColor cl tr l = r"
| "recorded_answer cl tr _ \<longleftrightarrow> True"

fun answered :: "client \<Rightarrow> trace \<Rightarrow> trace \<Rightarrow> bool" where
  "answered cl tr [] \<longleftrightarrow> True"
| "answered cl tr (e # es) \<longleftrightarrow> recorded_answer cl tr e \<and> answered cl (tr @ [e]) es"

text \<open>
  The lines written to the table, and the light IDs of the warnings (the entries of
  level \<open>Warn\<close> that carry a \<^verbatim>\<open>light_id\<close>).
\<close>

fun line_of :: "event \<Rightarrow> table_line option" where
  "line_of (Fprint ln) = Some ln"
| "line_of _ = None"

definition table :: "trace \<Rightarrow> table_line list" where
  "table es = List.map_filter line_of es"

fun warned_of :: "event \<Rightarrow> uint64 option" where
  "warned_of (Log Warn (Some (k, V_uint64 i)) msg fargs) = Some i"
| "warned_of _ = None"

definition warnings :: "trace \<Rightarrow> uint64 list" where
  "warnings es = List.map_filter warned_of es"

section \<open>The events a run consists of\<close>

text \<open>
  The events of \<^verbatim>\<open>getLights\<close>: the two debug entries, then one successful lookup per
  ID and per label, \<open>rs\<close> being the lights the library returned.
\<close>

definition debug_entries :: "flags \<Rightarrow> trace" where
  "debug_entries fl =
     [Log Debug (Some (''ids'', V_strings (flagLightLabels fl))) ''Requested IDs'' [],
      Log Debug (Some (''labels'', V_strings (flagLightLabels fl))) ''Requested labels'' []]"

definition id_calls :: "int list \<Rightarrow> light list \<Rightarrow> trace" where
  "id_calls ids rs = map2 (\<lambda>i l. Call_GetLightByID (uint64 i) (Inr l)) ids rs"

definition label_calls :: "string list \<Rightarrow> light list \<Rightarrow> trace" where
  "label_calls labels rs = map2 (\<lambda>s l. Call_GetLightByLabel s (Inr l)) labels rs"

text \<open>
  The color that \<^verbatim>\<open>lightColor\<close> builds from the flags, its test for a missing color,
  and the setter calls of the two commands for a list of lights: one call on the client
  when the list is empty, one call per light otherwise.
\<close>

definition flag_color :: "flags \<Rightarrow> Color" where
  "flag_color fl = \<lparr>Hue = flagLightHue fl, Saturation = flagLightSaturation fl,
                    Brightness = flagLightBrightness fl, Kelvin = flagLightKelvin fl\<rparr>"

definition missing_color :: "flags \<Rightarrow> bool" where
  "missing_color fl \<longleftrightarrow>
     flagLightHue fl = 0 \<and> flagLightSaturation fl = 0 \<and> flagLightBrightness fl = 0
       \<and> flagLightKelvin fl = 0"

definition power_events :: "light list \<Rightarrow> bool \<Rightarrow> trace" where
  "power_events lights s =
     (if lights = [] then [Client_SetPower s] else map (\<lambda>l. Light_SetPower l s) lights)"

definition color_events :: "light list \<Rightarrow> Color \<Rightarrow> duration \<Rightarrow> trace" where
  "color_events lights c d =
     (if lights = [] then [Client_SetColor c d] else map (\<lambda>l. Light_SetColor l c d) lights)"

text \<open>
  The polling loop of \<^verbatim>\<open>lightList\<close>. A run of the loop is a list \<open>bs\<close> of answers of
  \<^verbatim>\<open>GetLights\<close>, one per tick, followed by an ending. \<open>tolerated\<close> holds of the
  errors after which the loop goes on, \<open>latest lights bs\<close> is the value of the variable
  \<^verbatim>\<open>lights\<close> after the answers \<open>bs\<close>, and \<open>loop_shape\<close> lists the three endings: the
  timeout with lights to print, the timeout with none, and an error that is not
  tolerated.
\<close>

definition tolerated :: "error option \<Rightarrow> bool" where
  "tolerated err \<longleftrightarrow> err = None \<or> err = Some ErrNotFound"

definition poll_events :: "(light list \<times> error option) list \<Rightarrow> trace" where
  "poll_events bs = concat (map (\<lambda>(ls, err). [EvTick, Call_GetLights ls err]) bs)"

definition latest :: "light list \<Rightarrow> (light list \<times> error option) list \<Rightarrow> light list" where
  "latest lights bs = (if bs = [] then lights else fst (last bs))"

definition no_lights_found :: event where
  "no_lights_found = Log Fatal None ''No lights found'' []"

definition could_not_find_lights :: "error \<Rightarrow> event" where
  "could_not_find_lights e = Log Fatal (Some (''error'', V_error e)) ''Could not find lights'' []"

definition loop_shape ::
  "(nat \<Rightarrow> select_case) \<Rightarrow> nat \<Rightarrow> light list \<Rightarrow> (light list \<times> error option) list
    \<Rightarrow> light list outcome \<Rightarrow> trace \<Rightarrow> bool" where
  "loop_shape sched i lights bs out ending \<longleftrightarrow>
     list_all (\<lambda>b. tolerated (snd b)) bs
     \<and> (\<forall>j < length bs. sched (i + j) = RecvTick)
     \<and> (sched (i + length bs) = RecvTimeout \<and> latest lights bs \<noteq> []
            \<and> out = Return (latest lights bs) \<and> ending = [EvTimeout]
        \<or> sched (i + length bs) = RecvTimeout \<and> latest lights bs = []
            \<and> out = Exit \<and> ending = [EvTimeout, no_lights_found]
        \<or> sched (i + length bs) = RecvTick \<and> out = Exit
            \<and> (\<exists>ls e. e \<noteq> ErrNotFound
                  \<and> ending = [EvTick, Call_GetLights ls (Some e), could_not_find_lights e]))"

text \<open>
  Firing and receiving. A \<^verbatim>\<open>select\<close> of Go takes a case whose channel is ready, and
  when several are ready it picks one of them at random. The channel of
  \<^verbatim>\<open>time.After\<close> is ready from the moment the timeout fires until its value is
  received, and the channel of \<^verbatim>\<open>time.Tick\<close> holds one pending tick. So a schedule
  comes from what is ready at each \<^verbatim>\<open>select\<close>: the tick alone, the fired timeout alone,
  or both, with the case the runtime picks. \<open>taken\<close> is the case received.
\<close>

datatype ready = Tick_only | Timeout_only | Both select_case

fun taken :: "ready \<Rightarrow> select_case" where
  "taken Tick_only = RecvTick"
| "taken Timeout_only = RecvTimeout"
| "taken (Both c) = c"

text \<open>
  The rows of the table. \<open>ask cl tr l\<close> is what the three getters of the light \<open>l\<close>
  answer when they are called in the order of the source after the trace \<open>tr\<close>, up to
  the first error; \<open>light_events\<close> are the events of one pass through the body of the
  loop with these answers, \<open>asks\<close> the answers for a list of lights, each asked after
  the events of the lights before it, and \<open>row_of\<close> the row that is printed for a
  light, if any.
\<close>

datatype answers =
    Label_failed error
  | Power_failed string error
  | Color_failed string bool error
  | All_ok string bool Color

definition warn_entry :: "light \<Rightarrow> event" where
  "warn_entry l = Log Warn (Some (''light_id'', V_uint64 (ID l))) ''Couldn't get color for light'' []"

definition ask :: "client \<Rightarrow> trace \<Rightarrow> light \<Rightarrow> answers" where
  "ask cl tr l =
     (case GetLabel cl tr l of
        Inl e \<Rightarrow> Label_failed e
      | Inr lbl \<Rightarrow>
          (case GetPower cl (tr @ [Call_GetLabel l (Inr lbl)]) l of
             Inl e \<Rightarrow> Power_failed lbl e
           | Inr p \<Rightarrow>
               (case GetColor cl (tr @ [Call_GetLabel l (Inr lbl), Call_GetPower l (Inr p)]) l of
                  Inl e \<Rightarrow> Color_failed lbl p e
                | Inr c \<Rightarrow> All_ok lbl p c)))"

fun light_events :: "light \<Rightarrow> answers \<Rightarrow> trace" where
  "light_events l (Label_failed e) = [Call_GetLabel l (Inl e), warn_entry l]"
| "light_events l (Power_failed lbl e) =
     [Call_GetLabel l (Inr lbl), Call_GetPower l (Inl e), warn_entry l]"
| "light_events l (Color_failed lbl p e) =
     [Call_GetLabel l (Inr lbl), Call_GetPower l (Inr p), Call_GetColor l (Inl e), warn_entry l]"
| "light_events l (All_ok lbl p c) =
     [Call_GetLabel l (Inr lbl), Call_GetPower l (Inr p), Call_GetColor l (Inr c),
      Fprint (Row (ID l) lbl p c)]"

fun asks :: "client \<Rightarrow> trace \<Rightarrow> light list \<Rightarrow> answers list" where
  "asks cl tr [] = []"
| "asks cl tr (l # ls) = ask cl tr l # asks cl (tr @ light_events l (ask cl tr l)) ls"

definition row_events :: "client \<Rightarrow> trace \<Rightarrow> light list \<Rightarrow> trace" where
  "row_events cl tr lights = concat (map2 light_events lights (asks cl tr lights))"

fun row_of :: "light \<Rightarrow> answers \<Rightarrow> table_line option" where
  "row_of l (All_ok lbl p c) = Some (Row (ID l) lbl p c)"
| "row_of l _ = None"

section \<open>Example runs\<close>

text \<open>
  A library with two lights. \<^verbatim>\<open>GetLights\<close> finds them from the second tick on; the
  lamp answers every getter, the desk light fails \<^verbatim>\<open>GetPower\<close>.
\<close>

definition demo_client :: client where
  "demo_client =
     \<lparr>GetLights = (\<lambda>tr. if length (filter (\<lambda>e. e = EvTick) tr) < 2 then ([], Some ErrNotFound)
                         else ([Light 0 1, Light 1 2], None)),
      GetLightByID = (\<lambda>tr i. if i = 1 then Inr (Light 0 1)
                               else if i = 2 then Inr (Light 1 2) else Inl ErrNotFound),
      GetLightByLabel = (\<lambda>tr s. if s = ''desk'' then Inr (Light 0 1)
                                  else if s = ''lamp'' then Inr (Light 1 2) else Inl ErrNotFound),
      GetLabel = (\<lambda>tr l. if ID l = 1 then Inr ''desk'' else Inr ''lamp''),
      GetPower = (\<lambda>tr l. if ID l = 1 then Inl (ErrOther ''timeout'') else Inr True),
      GetColor = (\<lambda>tr l. Inr \<lparr>Hue = 0, Saturation = 0, Brightness = 65535, Kelvin = 3500\<rparr>)\<rparr>"

text \<open>A library whose \<^verbatim>\<open>GetLights\<close> fails with an error other than \<^verbatim>\<open>ErrNotFound\<close>.\<close>

definition broken_client :: client where
  "broken_client = demo_client\<lparr>GetLights := (\<lambda>tr. ([], Some (ErrOther ''network down'')))\<rparr>"

text \<open>
  Flags: one ID and one label, with a color whose kelvin value is outside 2500-9000;
  two IDs and two labels; no ID and no label; the all-zero color; and an ID (7) that
  the library does not know.
\<close>

definition demo_flags :: flags where
  "demo_flags =
     \<lparr>flagLightIDs = [2], flagLightLabels = [''desk''],
      flagLightHue = 0, flagLightSaturation = 0, flagLightBrightness = 0, flagLightKelvin = 1,
      flagLightDuration = 5\<rparr>"

definition lamp_flags :: flags where
  "lamp_flags =
     \<lparr>flagLightIDs = [2, 1], flagLightLabels = [''lamp'', ''desk''],
      flagLightHue = 0, flagLightSaturation = 0, flagLightBrightness = 0, flagLightKelvin = 1,
      flagLightDuration = 5\<rparr>"

definition no_flags :: flags where
  "no_flags =
     \<lparr>flagLightIDs = [], flagLightLabels = [],
      flagLightHue = 120, flagLightSaturation = 65535, flagLightBrightness = 32768,
      flagLightKelvin = 3500, flagLightDuration = 1000000000\<rparr>"

definition zero_flags :: flags where
  "zero_flags =
     \<lparr>flagLightIDs = [2], flagLightLabels = [],
      flagLightHue = 0, flagLightSaturation = 0, flagLightBrightness = 0, flagLightKelvin = 0,
      flagLightDuration = 5\<rparr>"

definition failing_flags :: flags where
  "failing_flags =
     \<lparr>flagLightIDs = [2, 7, 1], flagLightLabels = [''desk''],
      flagLightHue = 0, flagLightSaturation = 0, flagLightBrightness = 0, flagLightKelvin = 1,
      flagLightDuration = 5\<rparr>"

text \<open>
  Schedules: three ticks before the timeout, and the timeout at once. In the third, the
  timeout has fired when the second \<^verbatim>\<open>select\<close> runs, a tick is pending too, and the
  runtime picks the tick; the timeout is received by the third \<^verbatim>\<open>select\<close>.
\<close>

definition demo_sched :: "nat \<Rightarrow> select_case" where
  "demo_sched k = (if k < 3 then RecvTick else RecvTimeout)"

definition timeout_first :: "nat \<Rightarrow> select_case" where
  "timeout_first k = RecvTimeout"

definition late_ready :: "nat \<Rightarrow> ready" where
  "late_ready i = (if i = 0 then Tick_only else if i = 1 then Both RecvTick else Timeout_only)"

definition late_sched :: "nat \<Rightarrow> select_case" where
  "late_sched i = taken (late_ready i)"

section \<open>Properties\<close>

subsection \<open>Reading appended traces\<close>

lemma map_filter_append: "List.map_filter f (xs @ ys) = List.map_filter f xs @ List.map_filter f ys"
  by (simp add: List.map_filter_def)

lemma lookups_append [simp]: "lookups (xs @ ys) = lookups xs @ lookups ys"
  by (simp add: lookups_def map_filter_append)

lemma targets_append [simp]: "targets (xs @ ys) = targets xs @ targets ys"
  by (simp add: targets_def map_filter_append)

lemma lookups_Nil [simp]: "lookups [] = []"
  by (simp add: lookups_def)

lemma lookups_Cons [simp]:
  "lookups (e # es) = (case lookup_of e of None \<Rightarrow> lookups es | Some x \<Rightarrow> x # lookups es)"
  by (simp add: lookups_def split: option.split)

lemma targets_Nil [simp]: "targets [] = []"
  by (simp add: targets_def)

lemma targets_Cons [simp]:
  "targets (e # es) = (case light_setter e of None \<Rightarrow> targets es | Some x \<Rightarrow> x # targets es)"
  by (simp add: targets_def split: option.split)

lemma SetPower_calls_append [simp]:
  "SetPower_calls (xs @ ys) = SetPower_calls xs @ SetPower_calls ys"
  by (simp add: SetPower_calls_def map_filter_append)

lemma SetColor_calls_append [simp]:
  "SetColor_calls (xs @ ys) = SetColor_calls xs @ SetColor_calls ys"
  by (simp add: SetColor_calls_def map_filter_append)

lemma table_append [simp]: "table (xs @ ys) = table xs @ table ys"
  by (simp add: table_def map_filter_append)

lemma warnings_append [simp]: "warnings (xs @ ys) = warnings xs @ warnings ys"
  by (simp add: warnings_def map_filter_append)

lemma table_Nil [simp]: "table [] = []"
  by (simp add: table_def)

lemma warnings_Nil [simp]: "warnings [] = []"
  by (simp add: warnings_def)

lemma table_Cons [simp]:
  "table (e # es) = (case line_of e of None \<Rightarrow> table es | Some ln \<Rightarrow> ln # table es)"
  by (simp add: table_def split: option.split)

lemma warnings_Cons [simp]:
  "warnings (e # es) = (case warned_of e of None \<Rightarrow> warnings es | Some i \<Rightarrow> i # warnings es)"
  by (simp add: warnings_def split: option.split)

lemma no_setter_args:
  "filter client_setter es = [] \<Longrightarrow> targets es = [] \<Longrightarrow>
   List.map_filter SetColor_args es = [] \<and> List.map_filter SetPower_arg es = []"
proof (induction es)
  case Nil
  then show ?case by simp
next
  case (Cons e es)
  then show ?case by (cases e) (simp_all split: if_splits)
qed

lemma no_setter_calls:
  "filter client_setter es = [] \<Longrightarrow> targets es = [] \<Longrightarrow>
   SetColor_calls es = [] \<and> SetPower_calls es = []"
  by (simp add: no_setter_args SetColor_calls_def SetPower_calls_def)

lemma SetColor_calls_fatal [simp]: "SetColor_calls [Usage, Log lv fld msg fargs] = []"
  by (simp add: SetColor_calls_def)

lemma lookups_fatal [simp]: "lookups [Usage, Log lv fld msg fargs] = []"
  by simp

lemma id_calls_Nil [simp]: "id_calls [] rs = []" "id_calls ids [] = []"
  by (simp_all add: id_calls_def)

lemma id_calls_Cons [simp]:
  "id_calls (i # ids) (l # rs) = Call_GetLightByID (uint64 i) (Inr l) # id_calls ids rs"
  by (simp add: id_calls_def)

lemma label_calls_Nil [simp]: "label_calls [] rs = []" "label_calls labels [] = []"
  by (simp_all add: label_calls_def)

lemma label_calls_Cons [simp]:
  "label_calls (s # labels) (l # rs) = Call_GetLightByLabel s (Inr l) # label_calls labels rs"
  by (simp add: label_calls_def)

lemma lookups_id_calls:
  "length rs = length ids \<Longrightarrow>
   lookups (id_calls ids rs) = zip (map (\<lambda>i. ByID (uint64 i)) ids) (map Inr rs)"
  by (induction ids rs rule: list_induct2') simp_all

lemma lookups_label_calls:
  "length rs = length labels \<Longrightarrow>
   lookups (label_calls labels rs) = zip (map ByLabel labels) (map Inr rs)"
  by (induction labels rs rule: list_induct2') simp_all

lemma targets_id_calls [simp]: "targets (id_calls ids rs) = []"
  by (induction ids rs rule: list_induct2') simp_all

lemma targets_label_calls [simp]: "targets (label_calls labels rs) = []"
  by (induction labels rs rule: list_induct2') simp_all

lemma client_setter_id_calls [simp]: "filter client_setter (id_calls ids rs) = []"
  by (induction ids rs rule: list_induct2') simp_all

lemma client_setter_label_calls [simp]: "filter client_setter (label_calls labels rs) = []"
  by (induction labels rs rule: list_induct2') simp_all

lemma lookups_debug [simp]: "lookups (debug_entries fl) = []"
  by (simp add: debug_entries_def)

lemma targets_debug [simp]: "targets (debug_entries fl) = []"
  by (simp add: debug_entries_def)

lemma client_setter_debug [simp]: "filter client_setter (debug_entries fl) = []"
  by (simp add: debug_entries_def)

lemma targets_map_power [simp]: "targets (map (\<lambda>l. Light_SetPower l s) lights) = lights"
  by (induction lights) simp_all

lemma targets_map_color [simp]: "targets (map (\<lambda>l. Light_SetColor l c d) lights) = lights"
  by (induction lights) simp_all

lemma lookups_map_power [simp]: "lookups (map (\<lambda>l. Light_SetPower l s) lights) = []"
  by (induction lights) simp_all

lemma lookups_map_color [simp]: "lookups (map (\<lambda>l. Light_SetColor l c d) lights) = []"
  by (induction lights) simp_all

lemma targets_power_events [simp]: "targets (power_events lights s) = lights"
  by (simp add: power_events_def)

lemma targets_color_events [simp]: "targets (color_events lights c d) = lights"
  by (simp add: color_events_def)

lemma client_setter_map_power [simp]:
  "filter client_setter (map (\<lambda>l. Light_SetPower l s) lights) = []"
  by (induction lights) simp_all

lemma client_setter_map_color [simp]:
  "filter client_setter (map (\<lambda>l. Light_SetColor l c d) lights) = []"
  by (induction lights) simp_all

lemma client_setter_power_events:
  "filter client_setter (power_events lights s) = (if lights = [] then [Client_SetPower s] else [])"
  by (simp add: power_events_def)

lemma client_setter_color_events:
  "filter client_setter (color_events lights c d) = (if lights = [] then [Client_SetColor c d] else [])"
  by (simp add: color_events_def)

lemma lookups_power_events [simp]: "lookups (power_events lights s) = []"
  by (simp add: power_events_def)

lemma lookups_color_events [simp]: "lookups (color_events lights c d) = []"
  by (simp add: color_events_def)

lemma SetPower_calls_map_power:
  "SetPower_calls (map (\<lambda>l. Light_SetPower l s) lights) = replicate (length lights) s"
  by (induction lights) (simp_all add: SetPower_calls_def)

lemma SetColor_calls_map_color:
  "SetColor_calls (map (\<lambda>l. Light_SetColor l c d) lights) = replicate (length lights) (c, d)"
  by (induction lights) (simp_all add: SetColor_calls_def)

lemma SetPower_calls_power_events:
  "SetPower_calls (power_events lights s) = replicate (if lights = [] then 1 else length lights) s"
  by (simp add: power_events_def SetPower_calls_map_power) (simp add: SetPower_calls_def)

lemma SetColor_calls_color_events:
  "SetColor_calls (color_events lights c d)
     = replicate (if lights = [] then 1 else length lights) (c, d)"
  by (simp add: color_events_def SetColor_calls_map_color) (simp add: SetColor_calls_def)

lemma zip_Inr_not_failed:
  assumes "kr \<in> set (zip xs (map Inr ys))"
  shows "\<not> isl (snd kr)"
proof -
  obtain a b where kr: "kr = (a, b)" by (cases kr)
  with assms have "b \<in> set (map Inr ys)" by (auto dest: set_zip_rightD)
  then obtain y where "b = Inr y" by auto
  with kr show ?thesis by simp
qed

lemma setters_append [simp]: "setters (xs @ ys) = setters xs @ setters ys"
  by (simp add: setters_def)

lemma no_setters:
  "filter client_setter es = [] \<Longrightarrow> targets es = [] \<Longrightarrow> setters es = []"
proof (induction es)
  case Nil
  then show ?case by (simp add: setters_def)
next
  case (Cons e es)
  then show ?case by (cases e) (simp_all add: setters_def split: if_splits)
qed

lemma setters_map_power [simp]:
  "setters (map (\<lambda>l. Light_SetPower l s) lights) = map (\<lambda>l. Light_SetPower l s) lights"
  by (induction lights) (simp_all add: setters_def)

lemma setters_map_color [simp]:
  "setters (map (\<lambda>l. Light_SetColor l c d) lights) = map (\<lambda>l. Light_SetColor l c d) lights"
  by (induction lights) (simp_all add: setters_def)

lemma setters_power_events [simp]: "setters (power_events lights s) = power_events lights s"
  by (simp add: power_events_def) (simp add: setters_def)

lemma setters_color_events [simp]: "setters (color_events lights c d) = color_events lights c d"
  by (simp add: color_events_def) (simp add: setters_def)

lemma answered_append:
  "answered cl tr (xs @ ys) \<longleftrightarrow> answered cl tr xs \<and> answered cl (tr @ xs) ys"
  by (induction xs arbitrary: tr) simp_all

lemma answered_at:
  "answered cl tr (pre @ e # post) \<Longrightarrow> recorded_answer cl (tr @ pre) e"
  by (simp add: answered_append)

lemma answered_debug [simp]: "answered cl tr (debug_entries fl)"
  by (simp add: debug_entries_def)

lemma failed_lookup_recorded:
  assumes "es = es0 @ [ev, e']" and "lookup_of ev = Some (key, Inl err)"
  shows "\<exists>kr \<in> set (lookups es). isl (snd kr)"
proof -
  from assms have "(key, Inl err) \<in> set (lookups es)" by simp
  then show ?thesis by force
qed

lemma taken_timeout: "taken r = RecvTimeout \<longleftrightarrow> r = Timeout_only \<or> r = Both RecvTimeout"
  by (cases r) auto

subsection \<open>\<^verbatim>\<open>getLights\<close>\<close>

text \<open>The two loops, when they return and when they end the process.\<close>

lemma getLights_ids_Return:
  "getLights_ids cl ids lights tr = (Return ls, tr') \<Longrightarrow>
   \<exists>rs. length rs = length ids \<and> ls = lights @ rs \<and> tr' = tr @ id_calls ids rs"
proof (induction ids arbitrary: lights tr)
  case Nil
  then show ?case by simp
next
  case (Cons i ids)
  show ?case
  proof (cases "GetLightByID cl tr (uint64 i)")
    case (Inl err)
    with Cons.prems show ?thesis by (simp add: Let_def)
  next
    case (Inr l)
    with Cons.prems have "getLights_ids cl ids (lights @ [l]) (tr @ [Call_GetLightByID (uint64 i) (Inr l)]) = (Return ls, tr')"
      by (simp add: Let_def)
    from Cons.IH [OF this] obtain rs where "length rs = length ids" "ls = (lights @ [l]) @ rs"
      "tr' = (tr @ [Call_GetLightByID (uint64 i) (Inr l)]) @ id_calls ids rs"
      by blast
    then show ?thesis
      by (intro exI [of _ "l # rs"]) simp
  qed
qed

lemma getLights_ids_Exit:
  "getLights_ids cl ids lights tr = (Exit, tr') \<Longrightarrow>
   \<exists>k rs err. k < length ids \<and> length rs = k \<and>
        tr' = tr @ id_calls (take k ids) rs
                 @ [Call_GetLightByID (uint64 (ids ! k)) (Inl err),
                    Log Fatal (Some (''error'', V_error err))
                      ''Could not find light with ID '%v': %v'' [V_int (ids ! k), V_error err]]"
proof (induction ids arbitrary: lights tr)
  case Nil
  then show ?case by simp
next
  case (Cons i ids)
  show ?case
  proof (cases "GetLightByID cl tr (uint64 i)")
    case (Inl err)
    with Cons.prems show ?thesis
      by (intro exI [of _ 0] exI [of _ "[]"] exI [of _ err]) (simp add: Let_def)
  next
    case (Inr l)
    with Cons.prems have "getLights_ids cl ids (lights @ [l]) (tr @ [Call_GetLightByID (uint64 i) (Inr l)]) = (Exit, tr')"
      by (simp add: Let_def)
    from Cons.IH [OF this] obtain k rs err where "k < length ids" "length rs = k"
      "tr' = (tr @ [Call_GetLightByID (uint64 i) (Inr l)]) @ id_calls (take k ids) rs
           @ [Call_GetLightByID (uint64 (ids ! k)) (Inl err),
                    Log Fatal (Some (''error'', V_error err))
                      ''Could not find light with ID '%v': %v'' [V_int (ids ! k), V_error err]]"
      by blast
    then show ?thesis
      by (intro exI [of _ "Suc k"] exI [of _ "l # rs"] exI [of _ err]) simp
  qed
qed

lemma getLights_labels_Return:
  "getLights_labels cl labels lights tr = (Return ls, tr') \<Longrightarrow>
   \<exists>rs. length rs = length labels \<and> ls = lights @ rs \<and> tr' = tr @ label_calls labels rs"
proof (induction labels arbitrary: lights tr)
  case Nil
  then show ?case by simp
next
  case (Cons s labels)
  show ?case
  proof (cases "GetLightByLabel cl tr s")
    case (Inl err)
    with Cons.prems show ?thesis by (simp add: Let_def)
  next
    case (Inr l)
    with Cons.prems have "getLights_labels cl labels (lights @ [l]) (tr @ [Call_GetLightByLabel s (Inr l)]) = (Return ls, tr')"
      by (simp add: Let_def)
    from Cons.IH [OF this] obtain rs where "length rs = length labels" "ls = (lights @ [l]) @ rs"
      "tr' = (tr @ [Call_GetLightByLabel s (Inr l)]) @ label_calls labels rs"
      by blast
    then show ?thesis
      by (intro exI [of _ "l # rs"]) simp
  qed
qed

lemma getLights_labels_Exit:
  "getLights_labels cl labels lights tr = (Exit, tr') \<Longrightarrow>
   \<exists>k rs err. k < length labels \<and> length rs = k \<and>
        tr' = tr @ label_calls (take k labels) rs
                 @ [Call_GetLightByLabel (labels ! k) (Inl err),
                    Log Fatal (Some (''error'', V_error err))
                      ''Could not find light with label '%v': %v'' [V_string (labels ! k), V_error err]]"
proof (induction labels arbitrary: lights tr)
  case Nil
  then show ?case by simp
next
  case (Cons s labels)
  show ?case
  proof (cases "GetLightByLabel cl tr s")
    case (Inl err)
    with Cons.prems show ?thesis
      by (intro exI [of _ 0] exI [of _ "[]"] exI [of _ err]) (simp add: Let_def)
  next
    case (Inr l)
    with Cons.prems have "getLights_labels cl labels (lights @ [l]) (tr @ [Call_GetLightByLabel s (Inr l)]) = (Exit, tr')"
      by (simp add: Let_def)
    from Cons.IH [OF this] obtain k rs err where "k < length labels" "length rs = k"
      "tr' = (tr @ [Call_GetLightByLabel s (Inr l)]) @ label_calls (take k labels) rs
           @ [Call_GetLightByLabel (labels ! k) (Inl err),
                    Log Fatal (Some (''error'', V_error err))
                      ''Could not find light with label '%v': %v'' [V_string (labels ! k), V_error err]]"
      by blast
    then show ?thesis
      by (intro exI [of _ "Suc k"] exI [of _ "l # rs"] exI [of _ err]) simp
  qed
qed

lemma getLights_ids_answered:
  "getLights_ids cl ids lights tr = (out, tr') \<Longrightarrow> \<exists>es. tr' = tr @ es \<and> answered cl tr es"
proof (induction ids arbitrary: lights tr)
  case Nil
  then show ?case by simp
next
  case (Cons i ids)
  let ?r = "GetLightByID cl tr (uint64 i)"
  let ?e = "Call_GetLightByID (uint64 i) ?r"
  show ?case
  proof (cases ?r)
    case (Inl err)
    with Cons.prems show ?thesis
      by (auto simp: Let_def)
  next
    case (Inr l)
    with Cons.prems have "getLights_ids cl ids (lights @ [l]) (tr @ [?e]) = (out, tr')"
      by (simp add: Let_def)
    from Cons.IH [OF this] obtain es where "tr' = (tr @ [?e]) @ es" "answered cl (tr @ [?e]) es"
      by blast
    then show ?thesis
      by (intro exI [of _ "?e # es"]) simp
  qed
qed

lemma getLights_labels_answered:
  "getLights_labels cl labels lights tr = (out, tr') \<Longrightarrow> \<exists>es. tr' = tr @ es \<and> answered cl tr es"
proof (induction labels arbitrary: lights tr)
  case Nil
  then show ?case by simp
next
  case (Cons s labels)
  let ?r = "GetLightByLabel cl tr s"
  let ?e = "Call_GetLightByLabel s ?r"
  show ?case
  proof (cases ?r)
    case (Inl err)
    with Cons.prems show ?thesis
      by (auto simp: Let_def)
  next
    case (Inr l)
    with Cons.prems have "getLights_labels cl labels (lights @ [l]) (tr @ [?e]) = (out, tr')"
      by (simp add: Let_def)
    from Cons.IH [OF this] obtain es where "tr' = (tr @ [?e]) @ es" "answered cl (tr @ [?e]) es"
      by blast
    then show ?thesis
      by (intro exI [of _ "?e # es"]) simp
  qed
qed

text \<open>
  The two tests \<^verbatim>\<open>len(...) > 0\<close> change nothing: a loop over an empty slice returns
  the lights it was given.
\<close>

lemma getLights_eq:
  "getLights cl fl tr =
     (case getLights_ids cl (flagLightIDs fl) [] (tr @ debug_entries fl) of
        (Exit, t) \<Rightarrow> (Exit, t)
      | (Return ls, t) \<Rightarrow> getLights_labels cl (flagLightLabels fl) ls t)"
proof (cases "flagLightIDs fl")
  case Nil
  then have "getLights cl fl tr =
     (if length (flagLightLabels fl) > 0
      then getLights_labels cl (flagLightLabels fl) [] (tr @ debug_entries fl)
      else (Return [], tr @ debug_entries fl))"
    by (simp add: getLights_def debug_entries_def Let_def del: getLights_labels.simps)
  also have "\<dots> = getLights_labels cl (flagLightLabels fl) [] (tr @ debug_entries fl)"
    by (cases "flagLightLabels fl") (simp_all del: getLights_labels.simps(2))
  finally show ?thesis using Nil by simp
next
  case (Cons i ids)
  then have "getLights cl fl tr =
     (case getLights_ids cl (i # ids) [] (tr @ debug_entries fl) of
        (Exit, t) \<Rightarrow> (Exit, t)
      | (Return ls, t) \<Rightarrow>
          if length (flagLightLabels fl) > 0 then getLights_labels cl (flagLightLabels fl) ls t
          else (Return ls, t))"
    by (simp add: getLights_def debug_entries_def Let_def del: getLights_ids.simps)
  also have "\<dots> =
     (case getLights_ids cl (i # ids) [] (tr @ debug_entries fl) of
        (Exit, t) \<Rightarrow> (Exit, t)
      | (Return ls, t) \<Rightarrow> getLights_labels cl (flagLightLabels fl) ls t)"
    by (cases "flagLightLabels fl") (simp_all del: getLights_ids.simps split: prod.split outcome.split)
  finally show ?thesis using Cons by simp
qed

lemma getLights_Return:
  assumes "getLights cl fl tr = (Return lights, tr1)"
  shows "\<exists>rs1 rs2. length rs1 = length (flagLightIDs fl) \<and> length rs2 = length (flagLightLabels fl)
           \<and> lights = rs1 @ rs2
           \<and> tr1 = tr @ debug_entries fl @ id_calls (flagLightIDs fl) rs1
                      @ label_calls (flagLightLabels fl) rs2"
proof -
  let ?tr2 = "tr @ debug_entries fl"
  obtain o1 t1 where r1: "getLights_ids cl (flagLightIDs fl) [] ?tr2 = (o1, t1)"
    by (cases "getLights_ids cl (flagLightIDs fl) [] ?tr2")
  from assms r1 obtain rs1 where o1: "o1 = Return rs1"
    by (cases o1) (simp_all add: getLights_eq)
  from r1 o1 getLights_ids_Return [of cl "flagLightIDs fl" "[]" ?tr2 rs1 t1]
  have 1: "length rs1 = length (flagLightIDs fl)" "t1 = ?tr2 @ id_calls (flagLightIDs fl) rs1"
    by auto
  have 2: "getLights_labels cl (flagLightLabels fl) rs1 t1 = (Return lights, tr1)"
    using assms r1 o1 by (simp add: getLights_eq)
  from getLights_labels_Return [OF 2] obtain rs2 where
    "length rs2 = length (flagLightLabels fl)" "lights = rs1 @ rs2"
    "tr1 = t1 @ label_calls (flagLightLabels fl) rs2"
    by blast
  with 1 show ?thesis by auto
qed

lemma requested_take_ids:
  "k \<le> length (flagLightIDs fl) \<Longrightarrow>
   take k (requested fl) = map (\<lambda>i. ByID (uint64 i)) (take k (flagLightIDs fl))"
  by (simp add: requested_def take_map)

lemma requested_take_labels:
  "take (length (flagLightIDs fl) + k) (requested fl) =
     map (\<lambda>i. ByID (uint64 i)) (flagLightIDs fl) @ map ByLabel (take k (flagLightLabels fl))"
  by (simp add: requested_def take_map)

lemma requested_nth_ids:
  "k < length (flagLightIDs fl) \<Longrightarrow> requested fl ! k = ByID (uint64 (flagLightIDs fl ! k))"
  by (simp add: requested_def nth_append)

lemma requested_nth_labels:
  "k < length (flagLightLabels fl) \<Longrightarrow>
   requested fl ! (length (flagLightIDs fl) + k) = ByLabel (flagLightLabels fl ! k)"
  by (simp add: requested_def nth_append)

lemma length_requested [simp]:
  "length (requested fl) = length (flagLightIDs fl) + length (flagLightLabels fl)"
  by (simp add: requested_def)

lemma getLights_Exit:
  assumes "getLights cl fl tr = (Exit, tr1)"
  shows "\<exists>es0 ev err fmt args k rs.
           tr1 = tr @ es0 @ [ev, Log Fatal (Some (''error'', V_error err)) fmt args]
           \<and> k < length (requested fl) \<and> length rs = k
           \<and> lookups es0 = zip (take k (requested fl)) (map Inr rs)
           \<and> lookup_of ev = Some (requested fl ! k, Inl err)
           \<and> filter client_setter es0 = [] \<and> targets es0 = []"
proof -
  let ?tr2 = "tr @ debug_entries fl"
  obtain o1 t1 where r1: "getLights_ids cl (flagLightIDs fl) [] ?tr2 = (o1, t1)"
    by (cases "getLights_ids cl (flagLightIDs fl) [] ?tr2")
  show ?thesis
  proof (cases o1)
    case Exit
    with r1 assms have t1: "t1 = tr1" by (simp add: getLights_eq)
    from r1 Exit getLights_ids_Exit [of cl "flagLightIDs fl" "[]" ?tr2 t1]
    obtain k rs err where k: "k < length (flagLightIDs fl)" "length rs = k"
      and tr: "t1 = ?tr2 @ id_calls (take k (flagLightIDs fl)) rs
                 @ [Call_GetLightByID (uint64 (flagLightIDs fl ! k)) (Inl err),
                    Log Fatal (Some (''error'', V_error err))
                      ''Could not find light with ID '%v': %v''
                      [V_int (flagLightIDs fl ! k), V_error err]]"
      by blast
    let ?es0 = "debug_entries fl @ id_calls (take k (flagLightIDs fl)) rs"
    have "lookups ?es0 = zip (take k (requested fl)) (map Inr rs)"
      using k by (simp add: lookups_id_calls requested_take_ids)
    moreover have "lookup_of (Call_GetLightByID (uint64 (flagLightIDs fl ! k)) (Inl err))
        = Some (requested fl ! k, Inl err)"
      using k by (simp add: requested_nth_ids)
    moreover have "tr1 = tr @ ?es0 @ [Call_GetLightByID (uint64 (flagLightIDs fl ! k)) (Inl err),
                    Log Fatal (Some (''error'', V_error err))
                      ''Could not find light with ID '%v': %v''
                      [V_int (flagLightIDs fl ! k), V_error err]]"
      using tr t1 by simp
    moreover have "k < length (requested fl)" using k by simp
    moreover have "filter client_setter ?es0 = []" "targets ?es0 = []" by simp_all
    ultimately show ?thesis using k(2) by blast
  next
    case (Return rs1)
    from r1 Return getLights_ids_Return [of cl "flagLightIDs fl" "[]" ?tr2 rs1 t1]
    have 1: "length rs1 = length (flagLightIDs fl)" "t1 = ?tr2 @ id_calls (flagLightIDs fl) rs1"
      by auto
    have 2: "getLights_labels cl (flagLightLabels fl) rs1 t1 = (Exit, tr1)"
      using assms r1 Return by (simp add: getLights_eq)
    from getLights_labels_Exit [OF 2]
    obtain k rs err where k: "k < length (flagLightLabels fl)" "length rs = k"
      and tr: "tr1 = t1 @ label_calls (take k (flagLightLabels fl)) rs
                 @ [Call_GetLightByLabel (flagLightLabels fl ! k) (Inl err),
                    Log Fatal (Some (''error'', V_error err))
                      ''Could not find light with label '%v': %v''
                      [V_string (flagLightLabels fl ! k), V_error err]]"
      by blast
    let ?es0 = "debug_entries fl @ id_calls (flagLightIDs fl) rs1
                  @ label_calls (take k (flagLightLabels fl)) rs"
    let ?k = "length (flagLightIDs fl) + k"
    have "lookups ?es0 = zip (take ?k (requested fl)) (map Inr (rs1 @ rs))"
      using k 1 by (simp add: lookups_id_calls lookups_label_calls requested_take_labels)
    moreover have "lookup_of (Call_GetLightByLabel (flagLightLabels fl ! k) (Inl err))
        = Some (requested fl ! ?k, Inl err)"
      using k by (simp add: requested_nth_labels)
    moreover have "tr1 = tr @ ?es0 @ [Call_GetLightByLabel (flagLightLabels fl ! k) (Inl err),
                    Log Fatal (Some (''error'', V_error err))
                      ''Could not find light with label '%v': %v''
                      [V_string (flagLightLabels fl ! k), V_error err]]"
      using tr 1 by simp
    moreover have "?k < length (requested fl)" using k by simp
    moreover have "length (rs1 @ rs) = ?k" using k 1 by simp
    moreover have "filter client_setter ?es0 = []" "targets ?es0 = []" by simp_all
    ultimately show ?thesis by blast
  qed
qed

lemma getLights_trace:
  assumes "getLights cl fl tr = (out, tr1)"
  shows "\<exists>es. tr1 = tr @ es \<and> filter client_setter es = [] \<and> targets es = []"
proof (cases out)
  case Exit
  with assms getLights_Exit [of cl fl tr tr1]
  obtain es0 ev err fmt args k where "tr1 = tr @ es0 @ [ev, Log Fatal (Some (''error'', V_error err)) fmt args]"
     "lookup_of ev = Some (requested fl ! k, Inl err)" "filter client_setter es0 = []" "targets es0 = []"
    by blast
  then show ?thesis
    by (intro exI [of _ "es0 @ [ev, Log Fatal (Some (''error'', V_error err)) fmt args]"])
       (cases ev; simp)
next
  case (Return lights)
  with assms getLights_Return [of cl fl tr lights tr1] show ?thesis
    by auto
qed

lemma getLights_Return_lookups:
  assumes "getLights cl fl tr = (Return lights, tr1)"
  shows "\<exists>es. tr1 = tr @ es \<and> length lights = length (requested fl)
           \<and> lookups es = zip (requested fl) (map Inr lights)
           \<and> filter client_setter es = [] \<and> targets es = []"
proof -
  from getLights_Return [OF assms] obtain rs1 rs2 where
    l: "length rs1 = length (flagLightIDs fl)" "length rs2 = length (flagLightLabels fl)"
    and "lights = rs1 @ rs2"
    and "tr1 = tr @ debug_entries fl @ id_calls (flagLightIDs fl) rs1
                      @ label_calls (flagLightLabels fl) rs2"
    by blast
  then show ?thesis
    by (intro exI [of _ "debug_entries fl @ id_calls (flagLightIDs fl) rs1
                      @ label_calls (flagLightLabels fl) rs2"])
       (simp add: lookups_id_calls lookups_label_calls requested_def)
qed

lemma getLights_lookups:
  assumes "getLights cl fl tr = (out, tr1)"
  shows "\<exists>es. tr1 = tr @ es \<and> filter client_setter es = [] \<and> targets es = []
           \<and> map fst (lookups es) = take (length (lookups es)) (requested fl)
           \<and> (case out of
                 Return lights \<Rightarrow> \<forall>kr \<in> set (lookups es). \<not> isl (snd kr)
               | Exit \<Rightarrow>
                   (\<exists>es0 ev err fmt fargs.
                      es = es0 @ [ev, Log Fatal (Some (''error'', V_error err)) fmt fargs]
                      \<and> (\<exists>key. lookup_of ev = Some (key, Inl err))
                      \<and> (\<forall>kr \<in> set (lookups es0). \<not> isl (snd kr))))"
proof (cases out)
  case (Return lights)
  with assms getLights_Return_lookups [of cl fl tr lights tr1]
  obtain es where es: "tr1 = tr @ es" "length lights = length (requested fl)"
    "lookups es = zip (requested fl) (map Inr lights)"
    "filter client_setter es = []" "targets es = []"
    by blast
  have "map fst (lookups es) = take (length (lookups es)) (requested fl)"
    using es(2,3) by simp
  moreover have "\<forall>kr \<in> set (lookups es). \<not> isl (snd kr)"
    using es(3) by (auto dest: zip_Inr_not_failed)
  ultimately show ?thesis using es Return by auto
next
  case Exit
  with assms getLights_Exit [of cl fl tr tr1]
  obtain es0 ev err fmt fargs k rs where
    e: "tr1 = tr @ es0 @ [ev, Log Fatal (Some (''error'', V_error err)) fmt fargs]"
      "k < length (requested fl)" "length rs = k"
      "lookups es0 = zip (take k (requested fl)) (map Inr rs)"
      "lookup_of ev = Some (requested fl ! k, Inl err)"
      "filter client_setter es0 = []" "targets es0 = []"
    by blast
  let ?es = "es0 @ [ev, Log Fatal (Some (''error'', V_error err)) fmt fargs]"
  have l: "lookups ?es = zip (take k (requested fl)) (map Inr rs) @ [(requested fl ! k, Inl err)]"
    using e(4,5) by simp
  have len: "length (lookups ?es) = Suc k"
    unfolding l using e(2,3) by simp
  have "map fst (lookups ?es) = take k (requested fl) @ [requested fl ! k]"
    unfolding l using e(2,3) by simp
  also have "\<dots> = take (Suc k) (requested fl)"
    using e(2) by (simp add: take_Suc_conv_app_nth)
  finally have p: "map fst (lookups ?es) = take (length (lookups ?es)) (requested fl)"
    using len by simp
  have n: "\<forall>kr \<in> set (lookups es0). \<not> isl (snd kr)"
    using e(4) by (auto dest: zip_Inr_not_failed)
  have s: "filter client_setter ?es = []" "targets ?es = []"
    using e(5,6,7) by (cases ev; simp)+
  show ?thesis
    unfolding Exit outcome.case
    by (rule exI [of _ ?es]) (use e(1,5) p n s in blast)
qed

lemma lights_empty_iff:
  assumes "getLights cl fl tr = (Return lights, tr1)"
  shows "lights = [] \<longleftrightarrow> flagLightIDs fl = [] \<and> flagLightLabels fl = []"
proof -
  from getLights_Return_lookups [OF assms] have "length lights = length (requested fl)"
    by blast
  then show ?thesis by (cases lights) auto
qed

lemma getLights_answered:
  assumes "getLights cl fl tr = (out, tr1)"
  shows "\<exists>es. tr1 = tr @ es \<and> answered cl tr es"
proof -
  let ?tr2 = "tr @ debug_entries fl"
  obtain o1 t1 where r1: "getLights_ids cl (flagLightIDs fl) [] ?tr2 = (o1, t1)"
    by (cases "getLights_ids cl (flagLightIDs fl) [] ?tr2")
  from getLights_ids_answered [OF r1] obtain es1 where
    es1: "t1 = ?tr2 @ es1" "answered cl ?tr2 es1"
    by blast
  show ?thesis
  proof (cases o1)
    case Exit
    with assms r1 have "tr1 = t1" by (simp add: getLights_eq)
    with es1 show ?thesis
      by (intro exI [of _ "debug_entries fl @ es1"]) (simp add: answered_append)
  next
    case (Return ls)
    with assms r1 have "getLights_labels cl (flagLightLabels fl) ls t1 = (out, tr1)"
      by (simp add: getLights_eq)
    from getLights_labels_answered [OF this] obtain es2 where
      "tr1 = t1 @ es2" "answered cl t1 es2"
      by blast
    with es1 show ?thesis
      by (intro exI [of _ "debug_entries fl @ es1 @ es2"]) (simp add: answered_append)
  qed
qed

lemma getLights_Return_exact:
  assumes "getLights cl fl tr = (Return lights, tr1)"
  shows "tr1 = tr @ debug_entries fl
            @ id_calls (flagLightIDs fl) (take (length (flagLightIDs fl)) lights)
            @ label_calls (flagLightLabels fl) (drop (length (flagLightIDs fl)) lights)"
proof -
  from getLights_Return [OF assms] obtain rs1 rs2 where
    "length rs1 = length (flagLightIDs fl)" "lights = rs1 @ rs2"
    "tr1 = tr @ debug_entries fl @ id_calls (flagLightIDs fl) rs1
                      @ label_calls (flagLightLabels fl) rs2"
    by blast
  then show ?thesis by simp
qed

lemma demo_getLights:
  "getLights demo_client demo_flags [] =
     (Return [Light 1 2, Light 0 1],
      debug_entries demo_flags @ [Call_GetLightByID 2 (Inr (Light 1 2)),
        Call_GetLightByLabel ''desk'' (Inr (Light 0 1))])"
  by (simp add: getLights_def demo_client_def demo_flags_def debug_entries_def uint64_def Let_def)

lemma lamp_getLights:
  "getLights demo_client lamp_flags [] =
     (Return [Light 1 2, Light 0 1, Light 1 2, Light 0 1],
      debug_entries lamp_flags
        @ [Call_GetLightByID 2 (Inr (Light 1 2)), Call_GetLightByID 1 (Inr (Light 0 1)),
           Call_GetLightByLabel ''lamp'' (Inr (Light 1 2)), Call_GetLightByLabel ''desk'' (Inr (Light 0 1))])"
  by (simp add: getLights_def demo_client_def lamp_flags_def debug_entries_def uint64_def Let_def)

lemma no_flags_getLights:
  "getLights cl no_flags [] = (Return [], debug_entries no_flags)"
  by (simp add: getLights_def no_flags_def debug_entries_def Let_def)

subsection \<open>\<^verbatim>\<open>lightPower\<close> and \<^verbatim>\<open>lightColor\<close>\<close>

lemma lightPower_each_eq:
  "lightPower_each lights s tr = tr @ map (\<lambda>l. Light_SetPower l s) lights"
  by (induction lights arbitrary: tr) simp_all

lemma lightColor_each_eq:
  "lightColor_each lights c d tr = tr @ map (\<lambda>l. Light_SetColor l c d) lights"
  by (induction lights arbitrary: tr) simp_all

lemma lightPower_valid:
  assumes "args \<noteq> []" and "args ! 0 = ''on'' \<or> args ! 0 = ''off''"
  shows "lightPower cl fl args tr =
     (case getLights cl fl tr of
        (Exit, t) \<Rightarrow> (Exit, t)
      | (Return lights, t) \<Rightarrow> (Return (), t @ power_events lights (args ! 0 = ''on'')))"
proof -
  from assms(1) have "\<not> length args < 1" by (cases args) simp_all
  with assms(2) show ?thesis
    by (auto simp: lightPower_def power_events_def lightPower_each_eq
             split: prod.split outcome.split)
qed

lemma lightColor_valid:
  assumes "\<not> missing_color fl"
  shows "lightColor cl fl tr =
     (case getLights cl fl tr of
        (Exit, t) \<Rightarrow> (Exit, t)
      | (Return lights, t) \<Rightarrow>
          (Return (), t @ color_events lights (flag_color fl) (flagLightDuration fl)))"
  using assms
  by (auto simp: lightColor_def color_events_def lightColor_each_eq missing_color_def
        flag_color_def Let_def split: prod.split outcome.split)

lemma lightPower_missing:
  "lightPower cl fl [] tr = (Exit, tr @ [Usage, Log Fatal None ''Missing state (on|off)'' []])"
  by (simp add: lightPower_def)

lemma lightPower_invalid:
  assumes "args \<noteq> []" and "args ! 0 \<noteq> ''on''" and "args ! 0 \<noteq> ''off''"
  shows "lightPower cl fl args tr =
     (Exit, tr @ [Usage, Log Fatal (Some (''state'', V_string (args ! 0)))
                           ''Invalid power state requested'' []])"
proof -
  from assms(1) have "\<not> length args < 1" by (cases args) simp_all
  with assms(2,3) show ?thesis by (simp add: lightPower_def)
qed

lemma lightColor_missing:
  "missing_color fl \<Longrightarrow>
   lightColor cl fl tr = (Exit, tr @ [Usage, Log Fatal None ''Missing color definition'' []])"
  by (simp add: lightColor_def missing_color_def)

text \<open>
  A run that passes the validation either ends in \<^verbatim>\<open>getLights\<close> or returns after the
  setter calls.
\<close>

lemma lightPower_run:
  assumes "args \<noteq> []" and "args ! 0 = ''on'' \<or> args ! 0 = ''off''"
  shows "(\<exists>es. getLights cl fl tr = (Exit, tr @ es) \<and> lightPower cl fl args tr = (Exit, tr @ es)
              \<and> filter client_setter es = [] \<and> targets es = [])
       \<or> (\<exists>lights es. getLights cl fl tr = (Return lights, tr @ es)
              \<and> lightPower cl fl args tr
                   = (Return (), tr @ es @ power_events lights (args ! 0 = ''on''))
              \<and> filter client_setter es = [] \<and> targets es = [])"
proof -
  obtain out t where g: "getLights cl fl tr = (out, t)"
    by (cases "getLights cl fl tr")
  from getLights_trace [OF g] obtain es where
    es: "t = tr @ es" "filter client_setter es = []" "targets es = []"
    by blast
  show ?thesis
  proof (cases out)
    case Exit
    with g es assms show ?thesis by (simp add: lightPower_valid)
  next
    case (Return lights)
    with g es assms show ?thesis by (simp add: lightPower_valid)
  qed
qed

lemma lightColor_run:
  assumes "\<not> missing_color fl"
  shows "(\<exists>es. getLights cl fl tr = (Exit, tr @ es) \<and> lightColor cl fl tr = (Exit, tr @ es)
              \<and> filter client_setter es = [] \<and> targets es = [])
       \<or> (\<exists>lights es. getLights cl fl tr = (Return lights, tr @ es)
              \<and> lightColor cl fl tr
                   = (Return (), tr @ es @ color_events lights (flag_color fl) (flagLightDuration fl))
              \<and> filter client_setter es = [] \<and> targets es = [])"
proof -
  obtain out t where g: "getLights cl fl tr = (out, t)"
    by (cases "getLights cl fl tr")
  from getLights_trace [OF g] obtain es where
    es: "t = tr @ es" "filter client_setter es = []" "targets es = []"
    by blast
  show ?thesis
  proof (cases out)
    case Exit
    with g es assms show ?thesis by (simp add: lightColor_valid)
  next
    case (Return lights)
    with g es assms show ?thesis by (simp add: lightColor_valid)
  qed
qed

lemma power_calls:
  assumes "args \<noteq> []" and "args ! 0 = ''on'' \<or> args ! 0 = ''off''"
  shows "\<exists>out es. lightPower cl fl args tr = (out, tr @ es)
           \<and> set (SetPower_calls es) \<subseteq> {args ! 0 = ''on''}
           \<and> (SetPower_calls es \<noteq> [] \<longleftrightarrow> (\<exists>lights tr1. getLights cl fl tr = (Return lights, tr1)))"
  using lightPower_run [OF assms, of cl fl tr]
proof (elim disjE exE conjE)
  fix es
  assume "getLights cl fl tr = (Exit, tr @ es)" "lightPower cl fl args tr = (Exit, tr @ es)"
    "filter client_setter es = []" "targets es = []"
  then show ?thesis
    by (intro exI [of _ Exit] exI [of _ es]) (simp add: no_setter_calls)
next
  fix lights es
  assume "getLights cl fl tr = (Return lights, tr @ es)"
    "lightPower cl fl args tr = (Return (), tr @ es @ power_events lights (args ! 0 = ''on''))"
    "filter client_setter es = []" "targets es = []"
  then show ?thesis
    by (intro exI [of _ "Return ()"] exI [of _ "es @ power_events lights (args ! 0 = ''on'')"])
       (simp add: no_setter_calls SetPower_calls_power_events)
qed

lemma color_calls:
  assumes "\<not> missing_color fl"
  shows "\<exists>out es. lightColor cl fl tr = (out, tr @ es)
           \<and> set (SetColor_calls es) \<subseteq> {(flag_color fl, flagLightDuration fl)}
           \<and> (out = Return () \<longleftrightarrow> SetColor_calls es \<noteq> [])"
  using lightColor_run [OF assms, of cl tr]
proof (elim disjE exE conjE)
  fix es
  assume "getLights cl fl tr = (Exit, tr @ es)" "lightColor cl fl tr = (Exit, tr @ es)"
    "filter client_setter es = []" "targets es = []"
  then show ?thesis
    by (intro exI [of _ Exit] exI [of _ es]) (simp add: no_setter_calls)
next
  fix lights es
  assume "getLights cl fl tr = (Return lights, tr @ es)"
    "lightColor cl fl tr
       = (Return (), tr @ es @ color_events lights (flag_color fl) (flagLightDuration fl))"
    "filter client_setter es = []" "targets es = []"
  then show ?thesis
    by (intro exI [of _ "Return ()"]
          exI [of _ "es @ color_events lights (flag_color fl) (flagLightDuration fl)"])
       (simp add: no_setter_calls SetColor_calls_color_events)
qed

lemma failing_power:
  "lightPower demo_client failing_flags [''on''] [] =
     (Exit, debug_entries failing_flags @
        [Call_GetLightByID 2 (Inr (Light 1 2)),
         Call_GetLightByID 7 (Inl ErrNotFound),
         Log Fatal (Some (''error'', V_error ErrNotFound))
           ''Could not find light with ID '%v': %v'' [V_int 7, V_error ErrNotFound]])"
  by (simp add: lightPower_def getLights_def demo_client_def failing_flags_def debug_entries_def
        uint64_def Let_def)

subsection \<open>The lights a command acts on\<close>

text \<open>
  Claim C1. In every run, \<^verbatim>\<open>getLights\<close> looks up the values of \<^verbatim>\<open>--id\<close>, in flag
  order and converted with \<^verbatim>\<open>uint64\<close>, and then the values of \<^verbatim>\<open>--label\<close>, in flag
  order, each at most once, and every lookup in the trace records what
  \<^verbatim>\<open>client.GetLightByID\<close> or \<^verbatim>\<open>client.GetLightByLabel\<close> answers at that point. It
  returns exactly when no lookup failed. When it returns, every requested key has been
  looked up, the events added are the two debug entries and the lookups and nothing
  else, and the list returned holds the light each lookup returned, IDs first, then
  labels. When that list is not empty, \<^verbatim>\<open>power\<close> (given a valid argument) then calls
  \<^verbatim>\<open>SetPower\<close> on exactly its lights, in order, and \<^verbatim>\<open>color\<close> (given a color) calls
  \<^verbatim>\<open>SetColor\<close> on exactly its lights, in order, and neither does anything else.
\<close>

theorem getLights_targets:
  "\<exists>out es. getLights cl fl tr = (out, tr @ es)
      \<and> answered cl tr es
      \<and> map fst (lookups es) = take (length (lookups es)) (requested fl)
      \<and> ((\<exists>lights. out = Return lights) \<longleftrightarrow> (\<forall>kr \<in> set (lookups es). \<not> isl (snd kr)))
      \<and> (\<forall>lights. out = Return lights \<longrightarrow>
            length lights = length (requested fl)
            \<and> lookups es = zip (requested fl) (map Inr lights)
            \<and> es = debug_entries fl
                 @ id_calls (flagLightIDs fl) (take (length (flagLightIDs fl)) lights)
                 @ label_calls (flagLightLabels fl) (drop (length (flagLightIDs fl)) lights)
            \<and> (lights \<noteq> [] \<and> args \<noteq> [] \<and> (args ! 0 = ''on'' \<or> args ! 0 = ''off'') \<longrightarrow>
                 lightPower cl fl args tr
                   = (Return (), tr @ es @ map (\<lambda>l. Light_SetPower l (args ! 0 = ''on'')) lights))
            \<and> (lights \<noteq> [] \<and> \<not> missing_color fl \<longrightarrow>
                 lightColor cl fl tr
                   = (Return (), tr @ es @ map (\<lambda>l. Light_SetColor l
                        \<lparr>Hue = flagLightHue fl, Saturation = flagLightSaturation fl,
                         Brightness = flagLightBrightness fl, Kelvin = flagLightKelvin fl\<rparr>
                        (flagLightDuration fl)) lights)))"
proof -
  obtain out tr1 where g: "getLights cl fl tr = (out, tr1)"
    by (cases "getLights cl fl tr")
  from getLights_lookups [OF g] obtain es where
    es: "tr1 = tr @ es"
        "map fst (lookups es) = take (length (lookups es)) (requested fl)"
    and c: "case out of
              Return lights \<Rightarrow> \<forall>kr \<in> set (lookups es). \<not> isl (snd kr)
            | Exit \<Rightarrow>
                (\<exists>es0 ev err fmt fargs.
                   es = es0 @ [ev, Log Fatal (Some (''error'', V_error err)) fmt fargs]
                   \<and> (\<exists>key. lookup_of ev = Some (key, Inl err))
                   \<and> (\<forall>kr \<in> set (lookups es0). \<not> isl (snd kr)))"
    by blast
  from getLights_answered [OF g] es(1) have a: "answered cl tr es" by auto
  have iff: "(\<exists>lights. out = Return lights) \<longleftrightarrow> (\<forall>kr \<in> set (lookups es). \<not> isl (snd kr))"
  proof (cases out)
    case Exit
    with c obtain es0 ev err fmt fargs key where
      "es = es0 @ [ev, Log Fatal (Some (''error'', V_error err)) fmt fargs]"
      "lookup_of ev = Some (key, Inl err)"
      by auto
    from failed_lookup_recorded [OF this] Exit show ?thesis by auto
  next
    case (Return lights)
    with c show ?thesis by simp
  qed
  have ret: "length lights = length (requested fl)
            \<and> lookups es = zip (requested fl) (map Inr lights)
            \<and> es = debug_entries fl
                 @ id_calls (flagLightIDs fl) (take (length (flagLightIDs fl)) lights)
                 @ label_calls (flagLightLabels fl) (drop (length (flagLightIDs fl)) lights)
            \<and> (lights \<noteq> [] \<and> args \<noteq> [] \<and> (args ! 0 = ''on'' \<or> args ! 0 = ''off'') \<longrightarrow>
                 lightPower cl fl args tr
                   = (Return (), tr @ es @ map (\<lambda>l. Light_SetPower l (args ! 0 = ''on'')) lights))
            \<and> (lights \<noteq> [] \<and> \<not> missing_color fl \<longrightarrow>
                 lightColor cl fl tr
                   = (Return (), tr @ es @ map (\<lambda>l. Light_SetColor l
                        \<lparr>Hue = flagLightHue fl, Saturation = flagLightSaturation fl,
                         Brightness = flagLightBrightness fl, Kelvin = flagLightKelvin fl\<rparr>
                        (flagLightDuration fl)) lights))"
    if r: "out = Return lights" for lights
  proof (intro conjI impI)
    from g r es(1) have g': "getLights cl fl tr = (Return lights, tr @ es)" by simp
    from getLights_Return_lookups [OF g']
    show "length lights = length (requested fl)"
      and "lookups es = zip (requested fl) (map Inr lights)"
      by auto
    from getLights_Return_exact [OF g']
    show "es = debug_entries fl
                 @ id_calls (flagLightIDs fl) (take (length (flagLightIDs fl)) lights)
                 @ label_calls (flagLightLabels fl) (drop (length (flagLightIDs fl)) lights)"
      by simp
    {
      assume "lights \<noteq> [] \<and> args \<noteq> [] \<and> (args ! 0 = ''on'' \<or> args ! 0 = ''off'')"
      then show "lightPower cl fl args tr
          = (Return (), tr @ es @ map (\<lambda>l. Light_SetPower l (args ! 0 = ''on'')) lights)"
        using g' by (simp add: lightPower_valid power_events_def)
    }
    {
      assume "lights \<noteq> [] \<and> \<not> missing_color fl"
      then show "lightColor cl fl tr
                   = (Return (), tr @ es @ map (\<lambda>l. Light_SetColor l
                        \<lparr>Hue = flagLightHue fl, Saturation = flagLightSaturation fl,
                         Brightness = flagLightBrightness fl, Kelvin = flagLightKelvin fl\<rparr>
                        (flagLightDuration fl)) lights)"
        using g' by (simp add: lightColor_valid color_events_def flag_color_def)
    }
  qed
  from g es a iff ret show ?thesis
    by (intro exI [of _ out] exI [of _ es]) blast
qed

theorem getLights_targets_witness:
  "answered demo_client []
     (debug_entries lamp_flags
        @ [Call_GetLightByID 2 (Inr (Light 1 2)), Call_GetLightByID 1 (Inr (Light 0 1)),
           Call_GetLightByLabel ''lamp'' (Inr (Light 1 2)), Call_GetLightByLabel ''desk'' (Inr (Light 0 1))])
   \<and> lookups (debug_entries lamp_flags
        @ [Call_GetLightByID 2 (Inr (Light 1 2)), Call_GetLightByID 1 (Inr (Light 0 1)),
           Call_GetLightByLabel ''lamp'' (Inr (Light 1 2)), Call_GetLightByLabel ''desk'' (Inr (Light 0 1))])
       = [(ByID 2, Inr (Light 1 2)), (ByID 1, Inr (Light 0 1)),
          (ByLabel ''lamp'', Inr (Light 1 2)), (ByLabel ''desk'', Inr (Light 0 1))]
   \<and> lightPower demo_client lamp_flags [''off''] []
        = (Return (), debug_entries lamp_flags
             @ [Call_GetLightByID 2 (Inr (Light 1 2)), Call_GetLightByID 1 (Inr (Light 0 1)),
           Call_GetLightByLabel ''lamp'' (Inr (Light 1 2)), Call_GetLightByLabel ''desk'' (Inr (Light 0 1)),
                Light_SetPower (Light 1 2) False, Light_SetPower (Light 0 1) False,
                Light_SetPower (Light 1 2) False, Light_SetPower (Light 0 1) False])
   \<and> lightColor demo_client lamp_flags []
        = (Return (), debug_entries lamp_flags
             @ [Call_GetLightByID 2 (Inr (Light 1 2)), Call_GetLightByID 1 (Inr (Light 0 1)),
           Call_GetLightByLabel ''lamp'' (Inr (Light 1 2)), Call_GetLightByLabel ''desk'' (Inr (Light 0 1)),
                Light_SetColor (Light 1 2) \<lparr>Hue = 0, Saturation = 0, Brightness = 0, Kelvin = 1\<rparr> 5, Light_SetColor (Light 0 1) \<lparr>Hue = 0, Saturation = 0, Brightness = 0, Kelvin = 1\<rparr> 5,
                Light_SetColor (Light 1 2) \<lparr>Hue = 0, Saturation = 0, Brightness = 0, Kelvin = 1\<rparr> 5, Light_SetColor (Light 0 1) \<lparr>Hue = 0, Saturation = 0, Brightness = 0, Kelvin = 1\<rparr> 5])"
proof -
  have m: "\<not> missing_color lamp_flags"
    by (simp add: missing_color_def lamp_flags_def)
  have r: "requested lamp_flags = [ByID 2, ByID 1, ByLabel ''lamp'', ByLabel ''desk'']"
    by (simp add: requested_def lamp_flags_def uint64_def)
  have f: "flagLightHue lamp_flags = 0" "flagLightSaturation lamp_flags = 0"
    "flagLightBrightness lamp_flags = 0" "flagLightKelvin lamp_flags = 1"
    "flagLightDuration lamp_flags = 5"
    by (simp_all add: lamp_flags_def)
  let ?tr1 = "debug_entries lamp_flags
        @ [Call_GetLightByID 2 (Inr (Light 1 2)), Call_GetLightByID 1 (Inr (Light 0 1)),
           Call_GetLightByLabel ''lamp'' (Inr (Light 1 2)), Call_GetLightByLabel ''desk'' (Inr (Light 0 1))]"
  let ?lights = "[Light 1 2, Light 0 1, Light 1 2, Light 0 1]"
  from getLights_targets [of demo_client lamp_flags "[]" "[''off'']"]
  obtain out es where
    run: "getLights demo_client lamp_flags [] = (out, [] @ es)"
    and a: "answered demo_client [] es"
    and ret: "\<forall>lights. out = Return lights \<longrightarrow>
            length lights = length (requested lamp_flags)
            \<and> lookups es = zip (requested lamp_flags) (map Inr lights)
            \<and> es = debug_entries lamp_flags
                 @ id_calls (flagLightIDs lamp_flags) (take (length (flagLightIDs lamp_flags)) lights)
                 @ label_calls (flagLightLabels lamp_flags)
                     (drop (length (flagLightIDs lamp_flags)) lights)
            \<and> (lights \<noteq> [] \<and> [''off''] \<noteq> [] \<and> ([''off''] ! 0 = ''on'' \<or> [''off''] ! 0 = ''off'') \<longrightarrow>
                 lightPower demo_client lamp_flags [''off''] []
                   = (Return (), [] @ es @ map (\<lambda>l. Light_SetPower l ([''off''] ! 0 = ''on'')) lights))
            \<and> (lights \<noteq> [] \<and> \<not> missing_color lamp_flags \<longrightarrow>
                 lightColor demo_client lamp_flags []
                   = (Return (), [] @ es @ map (\<lambda>l. Light_SetColor l
                        \<lparr>Hue = flagLightHue lamp_flags, Saturation = flagLightSaturation lamp_flags,
                         Brightness = flagLightBrightness lamp_flags,
                         Kelvin = flagLightKelvin lamp_flags\<rparr>
                        (flagLightDuration lamp_flags)) lights))"
    by blast
  from run have o: "out = Return ?lights" and e: "es = ?tr1"
    by (simp_all add: lamp_getLights)
  from a have 1: "answered demo_client [] ?tr1"
    unfolding e .
  note ret' = ret [rule_format, OF o]
  note l = ret' [THEN conjunct2, THEN conjunct1]
  from ret' [THEN conjunct2, THEN conjunct2, THEN conjunct2, THEN conjunct1]
  have p: "lightPower demo_client lamp_flags [''off''] []
                   = (Return (), [] @ es @ map (\<lambda>l. Light_SetPower l ([''off''] ! 0 = ''on'')) ?lights)"
    by simp
  from ret' [THEN conjunct2, THEN conjunct2, THEN conjunct2, THEN conjunct2] m
  have c: "lightColor demo_client lamp_flags []
                   = (Return (), [] @ es @ map (\<lambda>l. Light_SetColor l
                        \<lparr>Hue = flagLightHue lamp_flags, Saturation = flagLightSaturation lamp_flags,
                         Brightness = flagLightBrightness lamp_flags,
                         Kelvin = flagLightKelvin lamp_flags\<rparr>
                        (flagLightDuration lamp_flags)) ?lights)"
    by simp
  from l have 2: "lookups ?tr1
       = [(ByID 2, Inr (Light 1 2)), (ByID 1, Inr (Light 0 1)),
          (ByLabel ''lamp'', Inr (Light 1 2)), (ByLabel ''desk'', Inr (Light 0 1))]"
    unfolding e r by simp
  from p have 3: "lightPower demo_client lamp_flags [''off''] []
        = (Return (), debug_entries lamp_flags
             @ [Call_GetLightByID 2 (Inr (Light 1 2)), Call_GetLightByID 1 (Inr (Light 0 1)),
           Call_GetLightByLabel ''lamp'' (Inr (Light 1 2)), Call_GetLightByLabel ''desk'' (Inr (Light 0 1)),
                Light_SetPower (Light 1 2) False, Light_SetPower (Light 0 1) False,
                Light_SetPower (Light 1 2) False, Light_SetPower (Light 0 1) False])"
    unfolding e by simp
  from c have 4: "lightColor demo_client lamp_flags []
        = (Return (), debug_entries lamp_flags
             @ [Call_GetLightByID 2 (Inr (Light 1 2)), Call_GetLightByID 1 (Inr (Light 0 1)),
           Call_GetLightByLabel ''lamp'' (Inr (Light 1 2)), Call_GetLightByLabel ''desk'' (Inr (Light 0 1)),
                Light_SetColor (Light 1 2) \<lparr>Hue = 0, Saturation = 0, Brightness = 0, Kelvin = 1\<rparr> 5, Light_SetColor (Light 0 1) \<lparr>Hue = 0, Saturation = 0, Brightness = 0, Kelvin = 1\<rparr> 5,
                Light_SetColor (Light 1 2) \<lparr>Hue = 0, Saturation = 0, Brightness = 0, Kelvin = 1\<rparr> 5, Light_SetColor (Light 0 1) \<lparr>Hue = 0, Saturation = 0, Brightness = 0, Kelvin = 1\<rparr> 5])"
    unfolding e f by simp
  from 1 2 3 4 show ?thesis by (simp only: simp_thms)
qed

text \<open>
  Claim C3. Let \<^verbatim>\<open>getLights\<close> return the list \<open>lights\<close>; it is empty exactly when
  neither \<^verbatim>\<open>--id\<close> nor \<^verbatim>\<open>--label\<close> has a value. Then \<^verbatim>\<open>power\<close> (with a valid
  argument) returns, and after the events of \<^verbatim>\<open>getLights\<close> it does exactly this: one
  call of \<^verbatim>\<open>client.SetPower\<close> when \<open>lights\<close> is empty, and otherwise one call of
  \<^verbatim>\<open>SetPower\<close> on each light of the list, in order, with the state of the argument.
  Likewise \<^verbatim>\<open>color\<close> (with a color) makes one call of \<^verbatim>\<open>client.SetColor\<close> when
  \<open>lights\<close> is empty, and otherwise one call of \<^verbatim>\<open>SetColor\<close> on each light of the
  list, in order, with the color and the duration of the flags. These are all the
  setter calls of the run: the setter of the client is called exactly once if and only
  if \<open>lights\<close> is empty, and never when it is not.
\<close>

theorem setter_dispatch:
  assumes "getLights cl fl tr = (Return lights, tr1)"
  shows "(lights = [] \<longleftrightarrow> flagLightIDs fl = [] \<and> flagLightLabels fl = [])
       \<and> (args \<noteq> [] \<and> (args ! 0 = ''on'' \<or> args ! 0 = ''off'') \<longrightarrow>
            lightPower cl fl args tr
              = (Return (), tr1 @ (if lights = [] then [Client_SetPower (args ! 0 = ''on'')]
                                   else map (\<lambda>l. Light_SetPower l (args ! 0 = ''on'')) lights))
            \<and> (\<exists>es. lightPower cl fl args tr = (Return (), tr @ es)
                 \<and> setters es = (if lights = [] then [Client_SetPower (args ! 0 = ''on'')]
                                  else map (\<lambda>l. Light_SetPower l (args ! 0 = ''on'')) lights)
                 \<and> (length (filter client_setter es) = 1 \<longleftrightarrow> lights = [])
                 \<and> (lights \<noteq> [] \<longrightarrow> filter client_setter es = [])
                 \<and> targets es = lights))
       \<and> (\<not> missing_color fl \<longrightarrow>
            lightColor cl fl tr
              = (Return (), tr1 @ (if lights = []
                                   then [Client_SetColor (flag_color fl) (flagLightDuration fl)]
                                   else map (\<lambda>l. Light_SetColor l (flag_color fl) (flagLightDuration fl))
                                          lights))
            \<and> (\<exists>es. lightColor cl fl tr = (Return (), tr @ es)
                 \<and> setters es = (if lights = []
                                  then [Client_SetColor (flag_color fl) (flagLightDuration fl)]
                                  else map (\<lambda>l. Light_SetColor l (flag_color fl) (flagLightDuration fl))
                                         lights)
                 \<and> (length (filter client_setter es) = 1 \<longleftrightarrow> lights = [])
                 \<and> (lights \<noteq> [] \<longrightarrow> filter client_setter es = [])
                 \<and> targets es = lights))"
proof -
  from getLights_Return_lookups [OF assms] obtain es0 where
    es0: "tr1 = tr @ es0" "filter client_setter es0 = []" "targets es0 = []"
    by blast
  then have s0: "setters es0 = []" by (simp add: no_setters)
  have p: "lightPower cl fl args tr
              = (Return (), tr1 @ (if lights = [] then [Client_SetPower (args ! 0 = ''on'')]
                                   else map (\<lambda>l. Light_SetPower l (args ! 0 = ''on'')) lights))
            \<and> (\<exists>es. lightPower cl fl args tr = (Return (), tr @ es)
                 \<and> setters es = (if lights = [] then [Client_SetPower (args ! 0 = ''on'')]
                                  else map (\<lambda>l. Light_SetPower l (args ! 0 = ''on'')) lights)
                 \<and> (length (filter client_setter es) = 1 \<longleftrightarrow> lights = [])
                 \<and> (lights \<noteq> [] \<longrightarrow> filter client_setter es = [])
                 \<and> targets es = lights)"
    if "args \<noteq> [] \<and> (args ! 0 = ''on'' \<or> args ! 0 = ''off'')"
  proof -
    from that assms
    have e: "lightPower cl fl args tr = (Return (), tr1 @ power_events lights (args ! 0 = ''on''))"
      by (simp add: lightPower_valid)
    have "\<exists>es. lightPower cl fl args tr = (Return (), tr @ es)
                 \<and> setters es = power_events lights (args ! 0 = ''on'')
                 \<and> (length (filter client_setter es) = 1 \<longleftrightarrow> lights = [])
                 \<and> (lights \<noteq> [] \<longrightarrow> filter client_setter es = [])
                 \<and> targets es = lights"
      using e es0 s0
      by (intro exI [of _ "es0 @ power_events lights (args ! 0 = ''on'')"])
         (simp add: client_setter_power_events)
    with e show ?thesis by (simp add: power_events_def)
  qed
  have c: "lightColor cl fl tr
              = (Return (), tr1 @ (if lights = []
                                   then [Client_SetColor (flag_color fl) (flagLightDuration fl)]
                                   else map (\<lambda>l. Light_SetColor l (flag_color fl) (flagLightDuration fl))
                                          lights))
            \<and> (\<exists>es. lightColor cl fl tr = (Return (), tr @ es)
                 \<and> setters es = (if lights = []
                                  then [Client_SetColor (flag_color fl) (flagLightDuration fl)]
                                  else map (\<lambda>l. Light_SetColor l (flag_color fl) (flagLightDuration fl))
                                         lights)
                 \<and> (length (filter client_setter es) = 1 \<longleftrightarrow> lights = [])
                 \<and> (lights \<noteq> [] \<longrightarrow> filter client_setter es = [])
                 \<and> targets es = lights)"
    if "\<not> missing_color fl"
  proof -
    from that assms
    have e: "lightColor cl fl tr
      = (Return (), tr1 @ color_events lights (flag_color fl) (flagLightDuration fl))"
      by (simp add: lightColor_valid)
    have "\<exists>es. lightColor cl fl tr = (Return (), tr @ es)
                 \<and> setters es = color_events lights (flag_color fl) (flagLightDuration fl)
                 \<and> (length (filter client_setter es) = 1 \<longleftrightarrow> lights = [])
                 \<and> (lights \<noteq> [] \<longrightarrow> filter client_setter es = [])
                 \<and> targets es = lights"
      using e es0 s0
      by (intro exI [of _ "es0 @ color_events lights (flag_color fl) (flagLightDuration fl)"])
         (simp add: client_setter_color_events)
    with e show ?thesis by (simp add: color_events_def)
  qed
  from lights_empty_iff [OF assms] p c show ?thesis by blast
qed

theorem setter_dispatch_witness:
  "lightPower demo_client no_flags [''on''] []
     = (Return (), debug_entries no_flags @ [Client_SetPower True])
   \<and> lightColor demo_client no_flags []
     = (Return (), debug_entries no_flags
          @ [Client_SetColor \<lparr>Hue = 120, Saturation = 65535, Brightness = 32768, Kelvin = 3500\<rparr>
               1000000000])
   \<and> (\<exists>es. lightPower demo_client demo_flags [''on''] [] = (Return (), es)
        \<and> setters es = [Light_SetPower (Light 1 2) True, Light_SetPower (Light 0 1) True]
        \<and> filter client_setter es = [] \<and> targets es = [Light 1 2, Light 0 1])
   \<and> (\<exists>es. lightColor demo_client demo_flags [] = (Return (), es)
        \<and> setters es
            = [Light_SetColor (Light 1 2) \<lparr>Hue = 0, Saturation = 0, Brightness = 0, Kelvin = 1\<rparr> 5,
               Light_SetColor (Light 0 1) \<lparr>Hue = 0, Saturation = 0, Brightness = 0, Kelvin = 1\<rparr> 5]
        \<and> filter client_setter es = [] \<and> targets es = [Light 1 2, Light 0 1])"
proof -
  have m: "\<not> missing_color demo_flags" "\<not> missing_color no_flags"
    by (simp_all add: missing_color_def demo_flags_def no_flags_def)
  have f: "flag_color demo_flags = \<lparr>Hue = 0, Saturation = 0, Brightness = 0, Kelvin = 1\<rparr>"
    "flagLightDuration demo_flags = 5"
    "flag_color no_flags = \<lparr>Hue = 120, Saturation = 65535, Brightness = 32768, Kelvin = 3500\<rparr>"
    "flagLightDuration no_flags = 1000000000"
    by (simp_all add: flag_color_def demo_flags_def no_flags_def)
  from setter_dispatch [OF no_flags_getLights, of "[''on'']" demo_client]
       setter_dispatch [OF demo_getLights, of "[''on'']"] m f
  show ?thesis by (auto simp: setters_def debug_entries_def)
qed

subsection \<open>The arguments of the setters\<close>

text \<open>
  Claim C4. In every run of \<^verbatim>\<open>color\<close>, each call of \<^verbatim>\<open>SetColor\<close>, on the client or on
  a light, receives the color made of the values of \<^verbatim>\<open>--hue\<close>, \<^verbatim>\<open>--saturation\<close>,
  \<^verbatim>\<open>--brightness\<close> and \<^verbatim>\<open>--kelvin\<close>, unchanged, and the value of \<^verbatim>\<open>--duration\<close>;
  a run that returns has made at least one such call, and a run that ends the process
  has made none.
\<close>

theorem color_arguments:
  assumes "lightColor cl fl tr = (out, tr')"
  shows "\<exists>es. tr' = tr @ es
           \<and> set (SetColor_calls es)
                \<subseteq> {(\<lparr>Hue = flagLightHue fl, Saturation = flagLightSaturation fl,
                      Brightness = flagLightBrightness fl, Kelvin = flagLightKelvin fl\<rparr>,
                     flagLightDuration fl)}
           \<and> (out = Return () \<longleftrightarrow> SetColor_calls es \<noteq> [])"
proof (cases "missing_color fl")
  case True
  with assms show ?thesis
    by (intro exI [of _ "[Usage, Log Fatal None ''Missing color definition'' []]"])
       (auto simp: lightColor_missing)
next
  case False
  from color_calls [OF False, of cl tr] assms show ?thesis
    by (auto simp: flag_color_def)
qed

theorem color_arguments_witness:
  "\<exists>es. lightColor demo_client demo_flags [] = (Return (), es)
      \<and> set (SetColor_calls es)
           \<subseteq> {(\<lparr>Hue = 0, Saturation = 0, Brightness = 0, Kelvin = 1\<rparr>, 5)}
      \<and> SetColor_calls es \<noteq> []"
proof -
  obtain out tr' where r: "lightColor demo_client demo_flags [] = (out, tr')"
    by (cases "lightColor demo_client demo_flags []")
  have "\<not> missing_color demo_flags"
    by (simp add: missing_color_def demo_flags_def)
  then have "out = Return ()"
    using r by (simp add: lightColor_valid demo_getLights)
  with color_arguments [OF r] r show ?thesis
    by (simp add: demo_flags_def)
qed

text \<open>
  Claim C5. With no argument, \<^verbatim>\<open>power\<close> prints the usage and ends the process with
  \<^verbatim>\<open>Missing state (on|off)\<close>; with a first argument other than \<^verbatim>\<open>on\<close> and \<^verbatim>\<open>off\<close>
  it prints the usage and ends the process with \<^verbatim>\<open>Invalid power state requested\<close>; in
  both cases the trace holds nothing else, so no lookup and no setter. With \<^verbatim>\<open>on\<close>
  every call of \<^verbatim>\<open>SetPower\<close> receives \<^verbatim>\<open>true\<close>, with \<^verbatim>\<open>off\<close> every call receives
  \<^verbatim>\<open>false\<close>, and there is such a call exactly when \<^verbatim>\<open>getLights\<close> returns.
\<close>

theorem power_argument:
  "(args = [] \<longrightarrow>
      lightPower cl fl args tr = (Exit, tr @ [Usage, Log Fatal None ''Missing state (on|off)'' []]))
   \<and> (args \<noteq> [] \<and> args ! 0 \<noteq> ''on'' \<and> args ! 0 \<noteq> ''off'' \<longrightarrow>
        lightPower cl fl args tr =
          (Exit, tr @ [Usage, Log Fatal (Some (''state'', V_string (args ! 0)))
                                ''Invalid power state requested'' []]))
   \<and> (args \<noteq> [] \<and> args ! 0 = ''on'' \<longrightarrow>
        (\<exists>out es. lightPower cl fl args tr = (out, tr @ es)
           \<and> set (SetPower_calls es) \<subseteq> {True}
           \<and> (SetPower_calls es \<noteq> [] \<longleftrightarrow> (\<exists>lights tr1. getLights cl fl tr = (Return lights, tr1)))))
   \<and> (args \<noteq> [] \<and> args ! 0 = ''off'' \<longrightarrow>
        (\<exists>out es. lightPower cl fl args tr = (out, tr @ es)
           \<and> set (SetPower_calls es) \<subseteq> {False}
           \<and> (SetPower_calls es \<noteq> [] \<longleftrightarrow> (\<exists>lights tr1. getLights cl fl tr = (Return lights, tr1)))))"
proof (intro conjI impI)
  assume "args = []"
  then show "lightPower cl fl args tr = (Exit, tr @ [Usage, Log Fatal None ''Missing state (on|off)'' []])"
    by (simp add: lightPower_missing)
next
  assume "args \<noteq> [] \<and> args ! 0 \<noteq> ''on'' \<and> args ! 0 \<noteq> ''off''"
  then show "lightPower cl fl args tr =
          (Exit, tr @ [Usage, Log Fatal (Some (''state'', V_string (args ! 0)))
                                ''Invalid power state requested'' []])"
    by (simp add: lightPower_invalid)
next
  assume a: "args \<noteq> [] \<and> args ! 0 = ''on''"
  then have "args \<noteq> []" "args ! 0 = ''on'' \<or> args ! 0 = ''off''" by simp_all
  from power_calls [OF this, of cl fl tr] a
  show "\<exists>out es. lightPower cl fl args tr = (out, tr @ es)
           \<and> set (SetPower_calls es) \<subseteq> {True}
           \<and> (SetPower_calls es \<noteq> [] \<longleftrightarrow> (\<exists>lights tr1. getLights cl fl tr = (Return lights, tr1)))"
    by simp
next
  assume a: "args \<noteq> [] \<and> args ! 0 = ''off''"
  then have "args \<noteq> []" "args ! 0 = ''on'' \<or> args ! 0 = ''off''" by simp_all
  from power_calls [OF this, of cl fl tr] a
  show "\<exists>out es. lightPower cl fl args tr = (out, tr @ es)
           \<and> set (SetPower_calls es) \<subseteq> {False}
           \<and> (SetPower_calls es \<noteq> [] \<longleftrightarrow> (\<exists>lights tr1. getLights cl fl tr = (Return lights, tr1)))"
    by simp
qed

theorem power_argument_witness:
  "lightPower demo_client demo_flags [] []
     = (Exit, [Usage, Log Fatal None ''Missing state (on|off)'' []])
   \<and> lightPower demo_client demo_flags [''toggle''] []
     = (Exit, [Usage, Log Fatal (Some (''state'', V_string ''toggle''))
                        ''Invalid power state requested'' []])
   \<and> (\<exists>out es. lightPower demo_client demo_flags [''on''] [] = (out, es)
         \<and> set (SetPower_calls es) \<subseteq> {True} \<and> SetPower_calls es \<noteq> [])
   \<and> (\<exists>out es. lightPower demo_client demo_flags [''off''] [] = (out, es)
         \<and> set (SetPower_calls es) \<subseteq> {False} \<and> SetPower_calls es \<noteq> [])"
proof -
  have g: "\<exists>lights tr1. getLights demo_client demo_flags [] = (Return lights, tr1)"
    by (simp add: demo_getLights)
  from power_argument [of "[]" demo_client demo_flags "[]"]
       power_argument [of "[''toggle'']" demo_client demo_flags "[]"]
       power_argument [of "[''on'']" demo_client demo_flags "[]"]
       power_argument [of "[''off'']" demo_client demo_flags "[]"] g
  show ?thesis by simp
qed

text \<open>
  Claim C9. When the four color flags are all zero, \<^verbatim>\<open>color\<close> prints the usage and
  ends the process with \<^verbatim>\<open>Missing color definition\<close>, and the trace holds nothing
  else. In no run is \<^verbatim>\<open>SetColor\<close> called with the all-zero color. Any other values
  pass: when \<^verbatim>\<open>getLights\<close> returns, \<^verbatim>\<open>SetColor\<close> is called with the values of the
  flags, whatever they are.
\<close>

theorem color_validation:
  "(missing_color fl \<longrightarrow>
      lightColor cl fl tr = (Exit, tr @ [Usage, Log Fatal None ''Missing color definition'' []]))
   \<and> (\<exists>out es. lightColor cl fl tr = (out, tr @ es)
         \<and> \<lparr>Hue = 0, Saturation = 0, Brightness = 0, Kelvin = 0\<rparr> \<notin> fst ` set (SetColor_calls es))
   \<and> (\<not> missing_color fl \<longrightarrow>
        (\<forall>lights tr1. getLights cl fl tr = (Return lights, tr1) \<longrightarrow>
           (\<exists>es. lightColor cl fl tr = (Return (), tr1 @ es)
              \<and> SetColor_calls es
                   = replicate (if lights = [] then 1 else length lights)
                       (flag_color fl, flagLightDuration fl))))"
proof (intro conjI impI allI)
  assume "missing_color fl"
  then show "lightColor cl fl tr = (Exit, tr @ [Usage, Log Fatal None ''Missing color definition'' []])"
    by (rule lightColor_missing)
next
  show "\<exists>out es. lightColor cl fl tr = (out, tr @ es)
         \<and> \<lparr>Hue = 0, Saturation = 0, Brightness = 0, Kelvin = 0\<rparr> \<notin> fst ` set (SetColor_calls es)"
  proof (cases "missing_color fl")
    case True
    then show ?thesis
      by (intro exI [of _ Exit] exI [of _ "[Usage, Log Fatal None ''Missing color definition'' []]"])
         (simp add: lightColor_missing)
  next
    case False
    then have "flag_color fl \<noteq> \<lparr>Hue = 0, Saturation = 0, Brightness = 0, Kelvin = 0\<rparr>"
      by (auto simp: missing_color_def flag_color_def)
    with color_calls [OF False, of cl tr] show ?thesis
      by fastforce
  qed
next
  fix lights tr1
  assume "\<not> missing_color fl" "getLights cl fl tr = (Return lights, tr1)"
  then have "lightColor cl fl tr
      = (Return (), tr1 @ color_events lights (flag_color fl) (flagLightDuration fl))"
    by (simp add: lightColor_valid)
  then show "\<exists>es. lightColor cl fl tr = (Return (), tr1 @ es)
              \<and> SetColor_calls es
                   = replicate (if lights = [] then 1 else length lights)
                       (flag_color fl, flagLightDuration fl)"
    by (simp add: SetColor_calls_color_events)
qed

theorem color_validation_witness:
  "lightColor demo_client zero_flags []
     = (Exit, [Usage, Log Fatal None ''Missing color definition'' []])
   \<and> (\<exists>es. lightColor demo_client demo_flags []
              = (Return (), snd (getLights demo_client demo_flags []) @ es)
         \<and> SetColor_calls es
              = [(\<lparr>Hue = 0, Saturation = 0, Brightness = 0, Kelvin = 1\<rparr>, 5),
                 (\<lparr>Hue = 0, Saturation = 0, Brightness = 0, Kelvin = 1\<rparr>, 5)])"
proof -
  have z: "missing_color zero_flags"
    by (simp add: missing_color_def zero_flags_def)
  have m: "\<not> missing_color demo_flags"
    by (simp add: missing_color_def demo_flags_def)
  have f: "flag_color demo_flags = \<lparr>Hue = 0, Saturation = 0, Brightness = 0, Kelvin = 1\<rparr>"
     "flagLightDuration demo_flags = 5"
    by (simp_all add: flag_color_def demo_flags_def)
  from color_validation [of zero_flags demo_client "[]"] z
  have 1: "lightColor demo_client zero_flags []
     = (Exit, [Usage, Log Fatal None ''Missing color definition'' []])"
    by simp
  from color_validation [of demo_flags demo_client "[]"] m demo_getLights f
  have 2: "\<exists>es. lightColor demo_client demo_flags []
              = (Return (), snd (getLights demo_client demo_flags []) @ es)
         \<and> SetColor_calls es
              = [(\<lparr>Hue = 0, Saturation = 0, Brightness = 0, Kelvin = 1\<rparr>, 5),
                 (\<lparr>Hue = 0, Saturation = 0, Brightness = 0, Kelvin = 1\<rparr>, 5)]"
    by (simp add: numeral_2_eq_2)
  from 1 2 show ?thesis by simp
qed

subsection \<open>A lookup that fails\<close>

text \<open>
  Claim C6. In every run of \<^verbatim>\<open>power\<close> and of \<^verbatim>\<open>color\<close>, the keys looked up are an
  initial part of the keys the flags ask for, in order: no key is looked up again. If
  a lookup returns an error, the run ends the process, the failed lookup is the last
  event before the fatal entry, every lookup before it succeeded, and no setter is
  called, on the client or on a light.
\<close>

theorem lookup_failure_is_fatal:
  assumes "lightPower cl fl args tr = (out, tr') \<or> lightColor cl fl tr = (out, tr')"
  shows "\<exists>es. tr' = tr @ es
           \<and> map fst (lookups es) = take (length (lookups es)) (requested fl)
           \<and> ((\<exists>kr \<in> set (lookups es). isl (snd kr)) \<longrightarrow>
                 out = Exit \<and> filter client_setter es = [] \<and> targets es = []
                 \<and> (\<exists>es0 ev err fmt fargs.
                      es = es0 @ [ev, Log Fatal (Some (''error'', V_error err)) fmt fargs]
                      \<and> (\<exists>key. lookup_of ev = Some (key, Inl err))
                      \<and> (\<forall>kr \<in> set (lookups es0). \<not> isl (snd kr))))"
proof -
  let ?P = "\<lambda>out es. map fst (lookups es) = take (length (lookups es)) (requested fl)
           \<and> ((\<exists>kr \<in> set (lookups es). isl (snd kr)) \<longrightarrow>
                 out = Exit \<and> filter client_setter es = [] \<and> targets es = []
                 \<and> (\<exists>es0 ev err fmt fargs.
                      es = es0 @ [ev, Log Fatal (Some (''error'', V_error err)) fmt fargs]
                      \<and> (\<exists>key. lookup_of ev = Some (key, Inl err))
                      \<and> (\<forall>kr \<in> set (lookups es0). \<not> isl (snd kr))))"
  obtain o1 t1 where g: "getLights cl fl tr = (o1, t1)"
    by (cases "getLights cl fl tr")
  from getLights_lookups [OF g] obtain es where es: "t1 = tr @ es"
    "filter client_setter es = []" "targets es = []"
    "map fst (lookups es) = take (length (lookups es)) (requested fl)"
    "case o1 of
       Return lights \<Rightarrow> \<forall>kr \<in> set (lookups es). \<not> isl (snd kr)
     | Exit \<Rightarrow>
         (\<exists>es0 ev err fmt fargs.
            es = es0 @ [ev, Log Fatal (Some (''error'', V_error err)) fmt fargs]
            \<and> (\<exists>key. lookup_of ev = Some (key, Inl err))
            \<and> (\<forall>kr \<in> set (lookups es0). \<not> isl (snd kr)))"
    by blast
  have after: "\<exists>es'. (out, tr') = (out, tr @ es') \<and> ?P out es'"
    if run: "(out, tr') = (case (o1, t1) of
                (Exit, t) \<Rightarrow> (Exit, t)
              | (Return lights, t) \<Rightarrow> (Return (), t @ more lights))"
      and more: "\<And>lights. lookups (more lights) = []" for more
  proof (cases o1)
    case Exit
    with run es show ?thesis by auto
  next
    case (Return lights)
    with run have "out = Return ()" "tr' = tr @ es @ more lights"
      using es(1) by simp_all
    moreover have "?P (Return ()) (es @ more lights)"
      using es(4,5) Return more by simp
    ultimately show ?thesis by blast
  qed
  have fatal: "\<exists>es'. (out, tr') = (Exit, tr @ es') \<and> ?P Exit es'"
    if "(out, tr') = (Exit, tr @ [Usage, Log lv fld msg fargs])" for lv fld msg fargs
    using that by (intro exI [of _ "[Usage, Log lv fld msg fargs]"]) simp
  from assms show ?thesis
  proof
    assume p: "lightPower cl fl args tr = (out, tr')"
    show ?thesis
    proof (cases "args \<noteq> [] \<and> (args ! 0 = ''on'' \<or> args ! 0 = ''off'')")
      case True
      then have "(out, tr') = (case (o1, t1) of
                (Exit, t) \<Rightarrow> (Exit, t)
              | (Return lights, t) \<Rightarrow> (Return (), t @ power_events lights (args ! 0 = ''on'')))"
        using p g by (simp add: lightPower_valid)
      from after [OF this] show ?thesis by auto
    next
      case False
      then consider "args = []" | "args \<noteq> []" "args ! 0 \<noteq> ''on''" "args ! 0 \<noteq> ''off''"
        by blast
      then show ?thesis
      proof cases
        case 1
        with p fatal [of Fatal None "''Missing state (on|off)''" "[]"] show ?thesis
          by (auto simp: lightPower_missing)
      next
        case 2
        with p fatal [of Fatal "Some (''state'', V_string (args ! 0))"
                         "''Invalid power state requested''" "[]"]
        show ?thesis
          by (auto simp: lightPower_invalid)
      qed
    qed
  next
    assume c: "lightColor cl fl tr = (out, tr')"
    show ?thesis
    proof (cases "missing_color fl")
      case True
      with c fatal [of Fatal None "''Missing color definition''" "[]"] show ?thesis
        by (auto simp: lightColor_missing)
    next
      case False
      then have "(out, tr') = (case (o1, t1) of
                (Exit, t) \<Rightarrow> (Exit, t)
              | (Return lights, t) \<Rightarrow>
                  (Return (), t @ color_events lights (flag_color fl) (flagLightDuration fl)))"
        using c g by (simp add: lightColor_valid)
      from after [OF this] show ?thesis by auto
    qed
  qed
qed

theorem lookup_failure_is_fatal_witness:
  "\<exists>es. lightPower demo_client failing_flags [''on''] [] = (Exit, es)
      \<and> lookups es = [(ByID 2, Inr (Light 1 2)), (ByID 7, Inl ErrNotFound)]
      \<and> filter client_setter es = [] \<and> targets es = []"
proof -
  have "lightPower demo_client failing_flags [''on''] [] =
     (Exit, debug_entries failing_flags @
        [Call_GetLightByID 2 (Inr (Light 1 2)),
         Call_GetLightByID 7 (Inl ErrNotFound),
         Log Fatal (Some (''error'', V_error ErrNotFound))
           ''Could not find light with ID '%v': %v'' [V_int 7, V_error ErrNotFound]])
     \<or> lightColor demo_client failing_flags [] =
     (Exit, debug_entries failing_flags @
        [Call_GetLightByID 2 (Inr (Light 1 2)),
         Call_GetLightByID 7 (Inl ErrNotFound),
         Log Fatal (Some (''error'', V_error ErrNotFound))
           ''Could not find light with ID '%v': %v'' [V_int 7, V_error ErrNotFound]])"
    by (simp add: failing_power)
  from lookup_failure_is_fatal [OF this] show ?thesis
    by (simp add: failing_power)
qed

subsection \<open>The polling loop of \<^verbatim>\<open>lightList\<close>\<close>

text \<open>One pass through the loop, for each case of the \<^verbatim>\<open>select\<close>.\<close>

lemma poll_events_simps [simp]:
  "poll_events [] = []"
  "poll_events ((ls, err) # bs) = EvTick # Call_GetLights ls err # poll_events bs"
  by (simp_all add: poll_events_def)

lemma latest_simps [simp]:
  "latest lights [] = lights"
  "latest lights ((ls, err) # bs) = latest ls bs"
  by (cases bs; simp add: latest_def)+

lemma poll_events_snoc:
  "poll_events (bs @ [(ls, err)]) = poll_events bs @ [EvTick, Call_GetLights ls err]"
  by (induction bs) auto

lemma latest_last:
  "latest lights bs \<noteq> lights \<Longrightarrow> \<exists>bs' err. bs = bs' @ [(latest lights bs, err)]"
proof (cases bs rule: rev_cases)
  case Nil
  moreover assume "latest lights bs \<noteq> lights"
  ultimately show ?thesis by simp
next
  case (snoc bs' b)
  then show ?thesis by (cases b) (simp add: latest_def)
qed

lemma latest_empty:
  "latest [] bs = [] \<Longrightarrow> bs = [] \<or> (\<exists>bs' err. bs = bs' @ [([], err)])"
proof (cases bs rule: rev_cases)
  case Nil
  then show ?thesis by simp
next
  case (snoc bs' b)
  moreover assume "latest [] bs = []"
  ultimately show ?thesis by (cases b) (simp add: latest_def)
qed

lemma loop_timeout_empty:
  "sched i = RecvTimeout \<Longrightarrow>
   lightList_loop cl sched i [] tr = Some (Exit, tr @ [EvTimeout, no_lights_found])"
  by (subst lightList_loop.simps) (simp add: lightList_select_def no_lights_found_def)

lemma loop_timeout:
  "sched i = RecvTimeout \<Longrightarrow> lights \<noteq> [] \<Longrightarrow>
   lightList_loop cl sched i lights tr = Some (Return lights, tr @ [EvTimeout])"
  by (subst lightList_loop.simps) (simp add: lightList_select_def)

lemma loop_tick_tolerated:
  "sched i = RecvTick \<Longrightarrow> GetLights cl (tr @ [EvTick]) = (ls, err) \<Longrightarrow> tolerated err \<Longrightarrow>
   lightList_loop cl sched i lights tr
     = lightList_loop cl sched (Suc i) ls (tr @ [EvTick, Call_GetLights ls err])"
  by (subst lightList_loop.simps) (auto simp: lightList_select_def tolerated_def)

lemma loop_tick_fatal:
  "sched i = RecvTick \<Longrightarrow> GetLights cl (tr @ [EvTick]) = (ls, Some e) \<Longrightarrow> e \<noteq> ErrNotFound \<Longrightarrow>
   lightList_loop cl sched i lights tr
     = Some (Exit, tr @ [EvTick, Call_GetLights ls (Some e), could_not_find_lights e])"
  by (subst lightList_loop.simps) (simp add: lightList_select_def could_not_find_lights_def)

lemma not_tolerated: "\<not> tolerated err \<Longrightarrow> \<exists>e. err = Some e \<and> e \<noteq> ErrNotFound"
  by (cases err) (auto simp: tolerated_def)

text \<open>
  When the schedule takes the timeout at some point, the loop returns: by induction on
  the number of selects before that point.
\<close>

lemma loop_terminates:
  "sched (i + n) = RecvTimeout \<Longrightarrow> \<exists>r. lightList_loop cl sched i lights tr = Some r"
proof (induction n arbitrary: i lights tr)
  case 0
  then show ?case
    by (cases "lights = []") (simp_all add: loop_timeout_empty loop_timeout)
next
  case (Suc n)
  show ?case
  proof (cases "sched i")
    case RecvTimeout
    then show ?thesis
      by (cases "lights = []") (simp_all add: loop_timeout_empty loop_timeout)
  next
    case RecvTick
    obtain ls err where g: "GetLights cl (tr @ [EvTick]) = (ls, err)"
      by (cases "GetLights cl (tr @ [EvTick])")
    show ?thesis
    proof (cases "tolerated err")
      case True
      from Suc.prems have "sched (Suc i + n) = RecvTimeout" by simp
      from Suc.IH [OF this] obtain r where
        "lightList_loop cl sched (Suc i) ls (tr @ [EvTick, Call_GetLights ls err]) = Some r"
        by blast
      moreover have "lightList_loop cl sched i lights tr
          = lightList_loop cl sched (Suc i) ls (tr @ [EvTick, Call_GetLights ls err])"
        using RecvTick g True by (rule loop_tick_tolerated)
      ultimately show ?thesis by simp
    next
      case False
      then obtain e where "err = Some e" "e \<noteq> ErrNotFound"
        by (auto dest: not_tolerated)
      with g have "GetLights cl (tr @ [EvTick]) = (ls, Some e)" by simp
      with RecvTick have "lightList_loop cl sched i lights tr
          = Some (Exit, tr @ [EvTick, Call_GetLights ls (Some e), could_not_find_lights e])"
        using \<open>e \<noteq> ErrNotFound\<close> by (rule loop_tick_fatal)
      then show ?thesis by simp
    qed
  qed
qed

text \<open>Whenever the loop returns, its events have one of the three shapes.\<close>

lemma loop_shape_Cons:
  assumes "loop_shape sched (Suc i) ls bs out ending" and "sched i = RecvTick" and "tolerated err"
  shows "loop_shape sched i lights ((ls, err) # bs) out ending"
proof -
  have "\<forall>j < Suc (length bs). sched (i + j) = RecvTick"
  proof (intro allI impI)
    fix j assume "j < Suc (length bs)"
    then show "sched (i + j) = RecvTick"
      using assms(1,2) by (cases j) (auto simp: loop_shape_def)
  qed
  with assms show ?thesis
    by (simp add: loop_shape_def)
qed

lemma loop_Some_shape:
  assumes "lightList_loop cl sched i lights tr = Some r"
  shows "\<exists>bs ending. r = (fst r, tr @ poll_events bs @ ending)
           \<and> loop_shape sched i lights bs (fst r) ending"
  using assms
proof (induction rule: lightList_loop.raw_induct [rotated 1, consumes 1, case_names step])
  case (step loop cl sched i lights tr r)
  show ?case
  proof (cases "sched i")
    case RecvTimeout
    show ?thesis
    proof (cases "lights = []")
      case True
      with step(2) RecvTimeout have "r = (Exit, tr @ [EvTimeout, no_lights_found])"
        by (auto simp: lightList_select_def no_lights_found_def)
      with RecvTimeout True show ?thesis
        by (intro exI [of _ "[]"] exI [of _ "[EvTimeout, no_lights_found]"])
           (simp add: loop_shape_def)
    next
      case False
      with step(2) RecvTimeout have "r = (Return lights, tr @ [EvTimeout])"
        by (auto simp: lightList_select_def)
      with RecvTimeout False show ?thesis
        by (intro exI [of _ "[]"] exI [of _ "[EvTimeout]"]) (simp add: loop_shape_def)
    qed
  next
    case RecvTick
    obtain ls err where g: "GetLights cl (tr @ [EvTick]) = (ls, err)"
      by (cases "GetLights cl (tr @ [EvTick])")
    show ?thesis
    proof (cases "tolerated err")
      case True
      with step(2) RecvTick g
      have "loop cl sched (Suc i) ls (tr @ [EvTick, Call_GetLights ls err]) = Some r"
        by (auto simp: lightList_select_def tolerated_def)
      from step(1) [OF this] obtain bs ending where
        r: "r = (fst r, (tr @ [EvTick, Call_GetLights ls err]) @ poll_events bs @ ending)"
        and s: "loop_shape sched (Suc i) ls bs (fst r) ending"
        by blast
      from r have "r = (fst r, tr @ poll_events ((ls, err) # bs) @ ending)" by simp
      with loop_shape_Cons [OF s RecvTick True] show ?thesis by blast
    next
      case False
      then obtain e where e: "err = Some e" "e \<noteq> ErrNotFound"
        by (auto dest: not_tolerated)
      with step(2) RecvTick g
      have "r = (Exit, tr @ [EvTick, Call_GetLights ls (Some e), could_not_find_lights e])"
        by (auto simp: lightList_select_def could_not_find_lights_def)
      with RecvTick e show ?thesis
        by (intro exI [of _ "[]"]
              exI [of _ "[EvTick, Call_GetLights ls (Some e), could_not_find_lights e]"])
           (simp add: loop_shape_def)
    qed
  qed
qed

lemma loop_answered:
  assumes "lightList_loop cl sched i lights tr = Some r"
  shows "\<exists>es. snd r = tr @ es \<and> answered cl tr es"
  using assms
proof (induction rule: lightList_loop.raw_induct [rotated 1, consumes 1, case_names step])
  case (step loop cl sched i lights tr r)
  show ?case
  proof (cases "sched i")
    case RecvTimeout
    with step(2) show ?thesis
      by (cases "lights = []") (auto simp: lightList_select_def)
  next
    case RecvTick
    obtain ls err where g: "GetLights cl (tr @ [EvTick]) = (ls, err)"
      by (cases "GetLights cl (tr @ [EvTick])")
    let ?es = "[EvTick, Call_GetLights ls err]"
    have a: "answered cl tr ?es" using g by simp
    show ?thesis
    proof (cases "tolerated err")
      case True
      with step(2) RecvTick g
      have "loop cl sched (Suc i) ls (tr @ ?es) = Some r"
        by (auto simp: lightList_select_def tolerated_def)
      from step(1) [OF this] obtain es where "snd r = (tr @ ?es) @ es" "answered cl (tr @ ?es) es"
        by blast
      with a show ?thesis
        by (intro exI [of _ "?es @ es"]) (simp add: answered_append)
    next
      case False
      then obtain e where e: "err = Some e" "e \<noteq> ErrNotFound"
        by (auto dest: not_tolerated)
      with step(2) RecvTick g
      have "r = (Exit, tr @ [EvTick, Call_GetLights ls (Some e), could_not_find_lights e])"
        by (auto simp: lightList_select_def could_not_find_lights_def)
      with g e show ?thesis
        by (intro exI [of _ "[EvTick, Call_GetLights ls (Some e), could_not_find_lights e]"])
           (simp add: could_not_find_lights_def)
    qed
  qed
qed

text \<open>What the events of the loop and of the rows do not contain.\<close>

lemma table_poll_events [simp]: "table (poll_events bs) = []"
  by (induction bs) auto

lemma GetLights_poll_events [simp]:
  "length (filter is_GetLights (poll_events bs)) = length bs"
  by (induction bs) auto

lemma ticks_poll_events [simp]:
  "length (filter (\<lambda>e. e = EvTick) (poll_events bs)) = length bs"
  by (induction bs) auto

lemma no_timeout_poll_events [simp]: "EvTimeout \<notin> set (poll_events bs)"
  by (induction bs) auto

lemma dropWhile_poll_events [simp]:
  "dropWhile (\<lambda>e. e \<noteq> EvTimeout) (poll_events bs @ es) = dropWhile (\<lambda>e. e \<noteq> EvTimeout) es"
  by (induction bs) auto

lemma loop_trace_no_table:
  assumes "lightList_loop cl sched i lights tr = Some (out, tr')"
  shows "\<exists>es. tr' = tr @ es \<and> table es = []"
proof -
  from loop_Some_shape [OF assms] obtain bs ending where
    "tr' = tr @ poll_events bs @ ending" "loop_shape sched i lights bs out ending"
    by auto
  then show ?thesis
    by (intro exI [of _ "poll_events bs @ ending"])
       (auto simp: loop_shape_def no_lights_found_def could_not_find_lights_def)
qed

subsection \<open>The rows of the table\<close>

lemma rows_step:
  "lightList_rows cl (l # ls) tr = lightList_rows cl ls (tr @ light_events l (ask cl tr l))"
  by (simp add: ask_def warn_entry_def Let_def split: sum.split)

lemma rows_eq: "lightList_rows cl lights tr = tr @ row_events cl tr lights"
proof (induction lights arbitrary: tr)
  case Nil
  then show ?case by (simp add: row_events_def)
next
  case (Cons l ls)
  have "lightList_rows cl (l # ls) tr = lightList_rows cl ls (tr @ light_events l (ask cl tr l))"
    by (rule rows_step)
  also have "\<dots> = (tr @ light_events l (ask cl tr l))
      @ row_events cl (tr @ light_events l (ask cl tr l)) ls"
    by (rule Cons.IH)
  also have "\<dots> = tr @ row_events cl tr (l # ls)"
    by (simp add: row_events_def)
  finally show ?case .
qed

lemma length_asks [simp]: "length (asks cl tr lights) = length lights"
  by (induction lights arbitrary: tr) simp_all

lemma table_light_events: "table (light_events l a) = (case row_of l a of None \<Rightarrow> [] | Some r \<Rightarrow> [r])"
  by (cases a) (simp_all add: warn_entry_def)

lemma warnings_light_events:
  "warnings (light_events l a) = (case row_of l a of None \<Rightarrow> [ID l] | Some r \<Rightarrow> [])"
  by (cases a) (simp_all add: warn_entry_def)

lemma table_of_light_events:
  "table (concat (map2 light_events lights as))
     = List.map_filter (\<lambda>(l, a). row_of l a) (zip lights as)"
proof (induction lights as rule: list_induct2')
  case (4 l ls a as)
  then show ?case
    by (simp add: table_light_events split: option.split)
qed (simp_all)

lemma warnings_of_light_events:
  "warnings (concat (map2 light_events lights as))
     = map (\<lambda>(l, a). ID l) (filter (\<lambda>(l, a). row_of l a = None) (zip lights as))"
proof (induction lights as rule: list_induct2')
  case (4 l ls a as)
  then show ?case
    by (simp add: warnings_light_events split: option.split)
qed (simp_all)

lemma rows_and_warnings_count:
  "length (List.map_filter (\<lambda>(l, a). row_of l a) xs)
     + length (filter (\<lambda>(l, a). row_of l a = None) xs) = length xs"
  by (induction xs) (auto split: option.split)

lemma light_events_quiet [simp]:
  "filter is_GetLights (light_events l a) = []"
  "filter (\<lambda>e. e = EvTick) (light_events l a) = []"
  "EvTimeout \<notin> set (light_events l a)"
  by (cases a; simp add: warn_entry_def)+

lemma rows_quiet:
  "filter is_GetLights (concat (map2 light_events lights as)) = []
   \<and> filter (\<lambda>e. e = EvTick) (concat (map2 light_events lights as)) = []
   \<and> EvTimeout \<notin> set (concat (map2 light_events lights as))"
  by (induction lights as rule: list_induct2') simp_all

lemma row_events_quiet [simp]:
  "filter is_GetLights (row_events cl tr lights) = []"
  "filter (\<lambda>e. e = EvTick) (row_events cl tr lights) = []"
  "EvTimeout \<notin> set (row_events cl tr lights)"
  using rows_quiet [of lights "asks cl tr lights"] by (simp_all add: row_events_def)

lemma table_row_events:
  "table (row_events cl tr lights)
     = List.map_filter (\<lambda>(l, a). row_of l a) (zip lights (asks cl tr lights))"
  by (simp add: row_events_def table_of_light_events)

lemma light_events_answered: "answered cl tr (light_events l (ask cl tr l))"
  by (simp add: ask_def warn_entry_def split: sum.split)

lemma row_events_Cons:
  "row_events cl tr (l # ls)
     = light_events l (ask cl tr l) @ row_events cl (tr @ light_events l (ask cl tr l)) ls"
  by (simp add: row_events_def)

lemma row_events_answered: "answered cl tr (row_events cl tr lights)"
proof (induction lights arbitrary: tr)
  case Nil
  then show ?case by (simp add: row_events_def)
next
  case (Cons l ls)
  then show ?case
    by (simp add: row_events_Cons answered_append light_events_answered)
qed

lemma lightList_eq:
  "lightList cl sched tr =
     (case lightList_loop cl sched 0 [] tr of
        None \<Rightarrow> None
      | Some (Exit, tr1) \<Rightarrow> Some (Exit, tr1)
      | Some (Return lights, tr1) \<Rightarrow>
          Some (Return (), tr1 @ [Fprint Header] @ row_events cl (tr1 @ [Fprint Header]) lights
                             @ [Fprint Blank, Flush]))"
  by (simp add: lightList_def rows_eq split: option.split prod.split outcome.split)

lemma lightList_answered:
  assumes "lightList cl sched tr = Some (out, tr')"
  shows "\<exists>es. tr' = tr @ es \<and> answered cl tr es"
proof -
  from assms obtain r where r: "lightList_loop cl sched 0 [] tr = Some r"
    by (cases "lightList_loop cl sched 0 [] tr") (simp_all add: lightList_eq)
  from loop_answered [OF r] obtain es where es: "snd r = tr @ es" "answered cl tr es"
    by blast
  obtain o1 t1 where p: "r = (o1, t1)" by (cases r)
  show ?thesis
  proof (cases o1)
    case Exit
    with assms r p es show ?thesis by (auto simp: lightList_eq)
  next
    case (Return lights)
    with assms r p es
    have "tr' = tr @ es @ [Fprint Header] @ row_events cl (tr @ es @ [Fprint Header]) lights
                  @ [Fprint Blank, Flush]"
      by (auto simp: lightList_eq)
    moreover have "answered cl tr (es @ [Fprint Header]
        @ row_events cl (tr @ es @ [Fprint Header]) lights @ [Fprint Blank, Flush])"
      using es(2) row_events_answered [of cl "tr @ es @ [Fprint Header]" lights]
      by (simp add: answered_append)
    ultimately show ?thesis by blast
  qed
qed

text \<open>The three ways a run of \<^verbatim>\<open>list\<close> ends when the \<open>n\<close>-th select is the first to take the timeout.\<close>

lemma list_run_exact:
  assumes "sched n = RecvTimeout" and "\<forall>j<n. sched j = RecvTick"
  shows "\<exists>bs. list_all (\<lambda>b. tolerated (snd b)) bs
         \<and> (length bs = n \<and> latest [] bs \<noteq> []
            \<and> lightList cl sched tr
                = Some (Return (), tr @ poll_events bs @ [EvTimeout, Fprint Header]
                     @ row_events cl (tr @ poll_events bs @ [EvTimeout, Fprint Header]) (latest [] bs)
                     @ [Fprint Blank, Flush])
         \<or> length bs = n \<and> latest [] bs = []
            \<and> lightList cl sched tr = Some (Exit, tr @ poll_events bs @ [EvTimeout, no_lights_found])
         \<or> length bs < n
            \<and> (\<exists>ls e. e \<noteq> ErrNotFound
                 \<and> lightList cl sched tr
                     = Some (Exit, tr @ poll_events bs
                          @ [EvTick, Call_GetLights ls (Some e), could_not_find_lights e])))"
proof -
  from assms(1) have "sched (0 + n) = RecvTimeout" by simp
  then have "\<exists>r. lightList_loop cl sched 0 [] tr = Some r"
    by (rule loop_terminates [where i = 0 and n = n])
  then obtain r where r: "lightList_loop cl sched 0 [] tr = Some r"
    by blast
  from loop_Some_shape [OF r] obtain bs ending where
    tr': "r = (fst r, tr @ poll_events bs @ ending)"
    and s: "loop_shape sched 0 [] bs (fst r) ending"
    by blast
  from s have ticks: "\<forall>j < length bs. sched j = RecvTick"
    and tol: "list_all (\<lambda>b. tolerated (snd b)) bs"
    by (simp_all add: loop_shape_def)
  have le: "length bs \<le> n"
  proof (rule ccontr)
    assume "\<not> length bs \<le> n"
    then have "n < length bs" by simp
    with ticks assms(1) show False by auto
  qed
  from s consider
      (ret) "sched (length bs) = RecvTimeout" "latest [] bs \<noteq> []"
            "fst r = Return (latest [] bs)" "ending = [EvTimeout]"
    | (none) "sched (length bs) = RecvTimeout" "latest [] bs = []"
            "fst r = Exit" "ending = [EvTimeout, no_lights_found]"
    | (err) ls e where "sched (length bs) = RecvTick" "fst r = Exit" "e \<noteq> ErrNotFound"
            "ending = [EvTick, Call_GetLights ls (Some e), could_not_find_lights e]"
    by (auto simp: loop_shape_def)
  then show ?thesis
  proof cases
    case ret
    from ret(1) assms(2) le have "length bs = n"
      by (cases "length bs < n") auto
    moreover from r tr' ret have "lightList cl sched tr
                = Some (Return (), tr @ poll_events bs @ [EvTimeout, Fprint Header]
                     @ row_events cl (tr @ poll_events bs @ [EvTimeout, Fprint Header]) (latest [] bs)
                     @ [Fprint Blank, Flush])"
      by (cases r) (simp add: lightList_eq)
    ultimately show ?thesis using ret(2) tol by blast
  next
    case none
    from none(1) assms(2) le have "length bs = n"
      by (cases "length bs < n") auto
    moreover from r tr' none
    have "lightList cl sched tr = Some (Exit, tr @ poll_events bs @ [EvTimeout, no_lights_found])"
      by (cases r) (simp add: lightList_eq)
    ultimately show ?thesis using none(2) tol by blast
  next
    case err
    from err(1) assms(1) le have "length bs < n"
      by (cases "length bs = n") auto
    moreover from r tr' err
    have "lightList cl sched tr
                     = Some (Exit, tr @ poll_events bs
                          @ [EvTick, Call_GetLights ls (Some e), could_not_find_lights e])"
      by (cases r) (simp add: lightList_eq)
    ultimately show ?thesis using err(3) tol by blast
  qed
qed

text \<open>The example runs.\<close>

lemma demo_loop:
  "lightList_loop demo_client demo_sched 0 [] [] =
     Some (Return [Light 0 1, Light 1 2],
       [EvTick, Call_GetLights [] (Some ErrNotFound),
        EvTick, Call_GetLights [Light 0 1, Light 1 2] None,
        EvTick, Call_GetLights [Light 0 1, Light 1 2] None,
        EvTimeout])"
  by (simp add: lightList_loop.simps lightList_select_def demo_client_def demo_sched_def)

lemma demo_list:
  "lightList demo_client demo_sched [] =
     Some (Return (),
       [EvTick, Call_GetLights [] (Some ErrNotFound),
        EvTick, Call_GetLights [Light 0 1, Light 1 2] None,
        EvTick, Call_GetLights [Light 0 1, Light 1 2] None,
        EvTimeout,
        Fprint Header,
        Call_GetLabel (Light 0 1) (Inr ''desk''),
        Call_GetPower (Light 0 1) (Inl (ErrOther ''timeout'')),
        Log Warn (Some (''light_id'', V_uint64 1)) ''Couldn't get color for light'' [],
        Call_GetLabel (Light 1 2) (Inr ''lamp''),
        Call_GetPower (Light 1 2) (Inr True),
        Call_GetColor (Light 1 2) (Inr \<lparr>Hue = 0, Saturation = 0, Brightness = 65535, Kelvin = 3500\<rparr>),
        Fprint (Row 2 ''lamp'' True \<lparr>Hue = 0, Saturation = 0, Brightness = 65535, Kelvin = 3500\<rparr>),
        Fprint Blank, Flush])"
  by (simp add: lightList_def demo_loop) (simp add: demo_client_def)

lemma broken_loop:
  "lightList_loop broken_client demo_sched 0 [] [] =
     Some (Exit, [EvTick, Call_GetLights [] (Some (ErrOther ''network down'')),
                  Log Fatal (Some (''error'', V_error (ErrOther ''network down'')))
                    ''Could not find lights'' []])"
  by (simp add: lightList_loop.simps lightList_select_def broken_client_def demo_sched_def)

lemma timeout_first_loop:
  "lightList_loop demo_client timeout_first 0 [] [] =
     Some (Exit, [EvTimeout, Log Fatal None ''No lights found'' []])"
  by (simp add: lightList_loop.simps lightList_select_def timeout_first_def)

lemma late_loop:
  "lightList_loop demo_client late_sched 0 [] [] =
     Some (Return [Light 0 1, Light 1 2],
       [EvTick, Call_GetLights [] (Some ErrNotFound),
        EvTick, Call_GetLights [Light 0 1, Light 1 2] None,
        EvTimeout])"
  by (simp add: lightList_loop.simps lightList_select_def demo_client_def late_sched_def
        late_ready_def)

subsection \<open>The claims about \<^verbatim>\<open>lightList\<close>\<close>

text \<open>
  Claim C2, as amended. Let the \<open>n\<close>-th select be the first that receives the timeout.
  Then the run of \<^verbatim>\<open>list\<close> ends, and every call in it records what the library
  answers. Its events are the polls, a tick and a call of \<^verbatim>\<open>GetLights\<close> each, followed
  by one of three endings. After \<open>n\<close> polls without an error other than
  \<^verbatim>\<open>ErrNotFound\<close> the timeout is received: if the most recent call returned lights,
  the loop is left and the header, the rows of these lights and the empty line are
  written; if it returned none (or there was no call), the process ends with
  \<^verbatim>\<open>No lights found\<close> and no line of the table is written. Or, after fewer than
  \<open>n\<close> such polls, a call returns an error other than \<^verbatim>\<open>ErrNotFound\<close>, and the
  process ends with \<^verbatim>\<open>Could not find lights\<close> before the timeout is received, again
  with no line of the table. In every case \<^verbatim>\<open>GetLights\<close> is called once per tick
  received, at most \<open>n\<close> times, and never after the timeout is received.
\<close>

theorem polling_bounded_by_timeout:
  assumes "sched n = RecvTimeout" and "\<forall>j<n. sched j = RecvTick"
  shows "\<exists>out es bs. lightList cl sched tr = Some (out, tr @ es)
     \<and> answered cl tr es
     \<and> list_all (\<lambda>b. tolerated (snd b)) bs
     \<and> (length bs = n \<and> latest [] bs \<noteq> [] \<and> out = Return ()
          \<and> es = poll_events bs @ [EvTimeout, Fprint Header]
                 @ row_events cl (tr @ poll_events bs @ [EvTimeout, Fprint Header]) (latest [] bs)
                 @ [Fprint Blank, Flush]
          \<and> table es = Header # List.map_filter (\<lambda>(l, a). row_of l a)
                 (zip (latest [] bs)
                    (asks cl (tr @ poll_events bs @ [EvTimeout, Fprint Header]) (latest [] bs)))
               @ [Blank]
        \<or> length bs = n \<and> latest [] bs = [] \<and> out = Exit
          \<and> es = poll_events bs @ [EvTimeout, no_lights_found] \<and> table es = []
        \<or> length bs < n \<and> out = Exit
          \<and> (\<exists>ls e. e \<noteq> ErrNotFound
                \<and> es = poll_events bs @ [EvTick, Call_GetLights ls (Some e), could_not_find_lights e])
          \<and> table es = [])
     \<and> length (filter is_GetLights es) = length (filter (\<lambda>e. e = EvTick) es)
     \<and> length (filter is_GetLights es) \<le> n
     \<and> filter is_GetLights (dropWhile (\<lambda>e. e \<noteq> EvTimeout) es) = []
     \<and> (EvTimeout \<in> set es \<longrightarrow> length (filter is_GetLights es) = n)
     \<and> (EvTimeout \<notin> set es \<longrightarrow>
          out = Exit \<and> (\<exists>es1 ls e. e \<noteq> ErrNotFound
                          \<and> es = es1 @ [Call_GetLights ls (Some e), could_not_find_lights e]))
     \<and> (out = Return () \<longrightarrow>
          (\<exists>es1 ls err. ls \<noteq> []
             \<and> es = es1 @ [Call_GetLights ls err, EvTimeout, Fprint Header]
                    @ row_events cl (tr @ es1 @ [Call_GetLights ls err, EvTimeout, Fprint Header]) ls
                    @ [Fprint Blank, Flush]))
     \<and> (out = Exit \<and> EvTimeout \<in> set es \<longrightarrow>
          (\<exists>es1. es = es1 @ [EvTimeout, no_lights_found]
             \<and> (es1 = [] \<or> (\<exists>es0 err. es1 = es0 @ [Call_GetLights [] err]))))
     \<and> (out = Exit \<longrightarrow> table es = [])"
proof -
  from list_run_exact [OF assms, of cl tr] obtain bs where
    tol: "list_all (\<lambda>b. tolerated (snd b)) bs" and
    "length bs = n \<and> latest [] bs \<noteq> []
            \<and> lightList cl sched tr
                = Some (Return (), tr @ poll_events bs @ [EvTimeout, Fprint Header]
                     @ row_events cl (tr @ poll_events bs @ [EvTimeout, Fprint Header]) (latest [] bs)
                     @ [Fprint Blank, Flush])
         \<or> length bs = n \<and> latest [] bs = []
            \<and> lightList cl sched tr = Some (Exit, tr @ poll_events bs @ [EvTimeout, no_lights_found])
         \<or> length bs < n
            \<and> (\<exists>ls e. e \<noteq> ErrNotFound
                 \<and> lightList cl sched tr
                     = Some (Exit, tr @ poll_events bs
                          @ [EvTick, Call_GetLights ls (Some e), could_not_find_lights e]))"
    by blast
  then consider
      (ret) "length bs = n" "latest [] bs \<noteq> []"
         "lightList cl sched tr
                = Some (Return (), tr @ poll_events bs @ [EvTimeout, Fprint Header]
                     @ row_events cl (tr @ poll_events bs @ [EvTimeout, Fprint Header]) (latest [] bs)
                     @ [Fprint Blank, Flush])"
    | (none) "length bs = n" "latest [] bs = []"
         "lightList cl sched tr = Some (Exit, tr @ poll_events bs @ [EvTimeout, no_lights_found])"
    | (err) ls e where "length bs < n" "e \<noteq> ErrNotFound"
         "lightList cl sched tr
                     = Some (Exit, tr @ poll_events bs
                          @ [EvTick, Call_GetLights ls (Some e), could_not_find_lights e])"
    by blast
  then show ?thesis
  proof cases
    case ret
    from latest_last [OF ret(2)] obtain bs' err where bs: "bs = bs' @ [(latest [] bs, err)]"
      by blast
    let ?ls = "latest [] bs"
    let ?es1 = "poll_events bs' @ [EvTick]"
    let ?es = "poll_events bs @ [EvTimeout, Fprint Header]
                     @ row_events cl (tr @ poll_events bs @ [EvTimeout, Fprint Header]) ?ls
                     @ [Fprint Blank, Flush]"
    have run: "lightList cl sched tr = Some (Return (), tr @ ?es)"
      using ret(3) by simp
    from lightList_answered [OF run] have a: "answered cl tr ?es" by auto
    have p: "poll_events bs = ?es1 @ [Call_GetLights ?ls err]"
      by (subst bs) (simp add: poll_events_snoc)
    have "?es = ?es1 @ [Call_GetLights ?ls err, EvTimeout, Fprint Header]
                    @ row_events cl (tr @ ?es1 @ [Call_GetLights ?ls err, EvTimeout, Fprint Header]) ?ls
                    @ [Fprint Blank, Flush]"
      by (simp add: p)
    then have 7: "\<exists>es1 ls err. ls \<noteq> []
             \<and> ?es = es1 @ [Call_GetLights ls err, EvTimeout, Fprint Header]
                    @ row_events cl (tr @ es1 @ [Call_GetLights ls err, EvTimeout, Fprint Header]) ls
                    @ [Fprint Blank, Flush]"
      using ret(2) by blast
    have 1: "length (filter is_GetLights ?es) = length bs"
       "length (filter (\<lambda>e. e = EvTick) ?es) = length bs"
      by simp_all
    have 3: "filter is_GetLights (dropWhile (\<lambda>e. e \<noteq> EvTimeout) ?es) = []"
      by simp
    have 4: "EvTimeout \<in> set ?es" by simp
    have t: "table ?es = Header # List.map_filter (\<lambda>(l, a). row_of l a)
                 (zip ?ls (asks cl (tr @ poll_events bs @ [EvTimeout, Fprint Header]) ?ls))
               @ [Blank]"
      by (simp add: table_row_events)
    have d: "length bs = n \<and> latest [] bs \<noteq> [] \<and> Return () = Return ()
          \<and> ?es = poll_events bs @ [EvTimeout, Fprint Header]
                 @ row_events cl (tr @ poll_events bs @ [EvTimeout, Fprint Header]) (latest [] bs)
                 @ [Fprint Blank, Flush]
          \<and> table ?es = Header # List.map_filter (\<lambda>(l, a). row_of l a)
                 (zip (latest [] bs)
                    (asks cl (tr @ poll_events bs @ [EvTimeout, Fprint Header]) (latest [] bs)))
               @ [Blank]"
      using ret(1,2) t by simp
    show ?thesis
      apply (rule exI [of _ "Return ()"])
      apply (rule exI [of _ ?es])
      apply (rule exI [of _ bs])
      apply (intro conjI)
                apply (rule run)
               apply (rule a)
              apply (rule tol)
             apply (rule disjI1, rule d)
      using 1 ret(1) 3 4 7 by simp_all
  next
    case none
    let ?es = "poll_events bs @ [EvTimeout, no_lights_found]"
    have run: "lightList cl sched tr = Some (Exit, tr @ ?es)"
      using none(3) by simp
    from lightList_answered [OF run] have a: "answered cl tr ?es" by auto
    have 1: "length (filter is_GetLights ?es) = length bs"
       "length (filter (\<lambda>e. e = EvTick) ?es) = length bs"
      by (simp_all add: no_lights_found_def)
    have 3: "filter is_GetLights (dropWhile (\<lambda>e. e \<noteq> EvTimeout) ?es) = []"
      by (simp add: no_lights_found_def)
    have 4: "EvTimeout \<in> set ?es" by simp
    have t: "table ?es = []" by (simp add: no_lights_found_def)
    from latest_empty [OF none(2)]
    have "poll_events bs = [] \<or> (\<exists>es0 err. poll_events bs = es0 @ [Call_GetLights [] err])"
    proof
      assume "bs = []"
      then show ?thesis by simp
    next
      assume "\<exists>bs' err. bs = bs' @ [([], err)]"
      then obtain bs' err where "bs = bs' @ [([], err)]" by blast
      then have "poll_events bs = (poll_events bs' @ [EvTick]) @ [Call_GetLights [] err]"
        by (simp add: poll_events_snoc)
      then show ?thesis by blast
    qed
    then have 8: "\<exists>es1. ?es = es1 @ [EvTimeout, no_lights_found]
             \<and> (es1 = [] \<or> (\<exists>es0 err. es1 = es0 @ [Call_GetLights [] err]))"
      by (intro exI [of _ "poll_events bs"]) simp
    have d: "length bs = n \<and> latest [] bs = [] \<and> Exit = Exit
          \<and> ?es = poll_events bs @ [EvTimeout, no_lights_found] \<and> table ?es = []"
      using none(1,2) t by simp
    show ?thesis
      apply (rule exI [of _ Exit])
      apply (rule exI [of _ ?es])
      apply (rule exI [of _ bs])
      apply (intro conjI)
                apply (rule run)
               apply (rule a)
              apply (rule tol)
             apply (rule disjI2, rule disjI1, rule d)
      using 1 none(1) 3 4 8 t by simp_all
  next
    case err
    let ?es = "poll_events bs @ [EvTick, Call_GetLights ls (Some e), could_not_find_lights e]"
    have run: "lightList cl sched tr = Some (Exit, tr @ ?es)"
      using err(3) by simp
    from lightList_answered [OF run] have a: "answered cl tr ?es" by auto
    have 1: "length (filter is_GetLights ?es) = Suc (length bs)"
       "length (filter (\<lambda>e. e = EvTick) ?es) = Suc (length bs)"
      by (simp_all add: could_not_find_lights_def)
    have 3: "filter is_GetLights (dropWhile (\<lambda>e. e \<noteq> EvTimeout) ?es) = []"
      by (simp add: could_not_find_lights_def)
    have 4: "EvTimeout \<notin> set ?es" by (simp add: could_not_find_lights_def)
    have t: "table ?es = []" by (simp add: could_not_find_lights_def)
    have 6: "\<exists>es1 ls' e'. e' \<noteq> ErrNotFound
        \<and> ?es = es1 @ [Call_GetLights ls' (Some e'), could_not_find_lights e']"
      using err(2) by (intro exI [of _ "poll_events bs @ [EvTick]"] exI [of _ ls] exI [of _ e]) simp
    have 2: "Suc (length bs) \<le> n" using err(1) by simp
    have d: "length bs < n \<and> Exit = Exit
          \<and> (\<exists>ls' e'. e' \<noteq> ErrNotFound
                \<and> ?es = poll_events bs @ [EvTick, Call_GetLights ls' (Some e'), could_not_find_lights e'])
          \<and> table ?es = []"
      using err(1,2) t by blast
    show ?thesis
      apply (rule exI [of _ Exit])
      apply (rule exI [of _ ?es])
      apply (rule exI [of _ bs])
      apply (intro conjI)
                apply (rule run)
               apply (rule a)
              apply (rule tol)
             apply (rule disjI2, rule disjI2, rule d)
      using 1 2 3 4 6 t by simp_all
  qed
qed

theorem polling_bounded_by_timeout_witness:
  "\<exists>es. lightList demo_client demo_sched [] = Some (Return (), es)
      \<and> answered demo_client [] es
      \<and> length (filter is_GetLights es) = 3
      \<and> length (filter (\<lambda>e. e = EvTick) es) = 3
      \<and> filter is_GetLights (dropWhile (\<lambda>e. e \<noteq> EvTimeout) es) = []
      \<and> EvTimeout \<in> set es
      \<and> table es = [Header,
            Row 2 ''lamp'' True \<lparr>Hue = 0, Saturation = 0, Brightness = 65535, Kelvin = 3500\<rparr>,
            Blank]"
proof -
  have "demo_sched 3 = RecvTimeout" "\<forall>j<3. demo_sched j = RecvTick"
    by (simp_all add: demo_sched_def)
  from polling_bounded_by_timeout [OF this, of demo_client "[]"]
  obtain out es where
    "lightList demo_client demo_sched [] = Some (out, [] @ es)" "answered demo_client [] es"
    "length (filter is_GetLights es) = length (filter (\<lambda>e. e = EvTick) es)"
    "filter is_GetLights (dropWhile (\<lambda>e. e \<noteq> EvTimeout) es) = []"
    by blast
  then show ?thesis
    by (auto simp: demo_list)
qed

text \<open>
  Claim C2 as stated fails in three runs. With a library whose \<^verbatim>\<open>GetLights\<close> returns
  another error than \<^verbatim>\<open>ErrNotFound\<close>, the run ends at the first tick, although the
  timeout is only received by the fourth select: the loop does not end exactly at the
  timeout. With the timeout received at once, the run ends with \<^verbatim>\<open>No lights found\<close>
  and writes no line: the lights are not printed after it. In the third run the
  timeout has fired when the second select runs, a tick is pending as well, and the
  select takes the tick: \<^verbatim>\<open>GetLights\<close> is called once more after the timeout has
  fired, and the loop ends only when the timeout is received.
\<close>

theorem polling_ends_without_timeout_or_table:
  "lightList broken_client demo_sched []
     = Some (Exit, [EvTick, Call_GetLights [] (Some (ErrOther ''network down'')),
                    could_not_find_lights (ErrOther ''network down'')])
   \<and> demo_sched 3 = RecvTimeout
   \<and> lightList demo_client timeout_first [] = Some (Exit, [EvTimeout, no_lights_found])
   \<and> table [EvTimeout, no_lights_found] = []
   \<and> late_ready 1 = Both RecvTick
   \<and> late_sched 1 = RecvTick
   \<and> lightList_loop demo_client late_sched 0 [] []
     = Some (Return [Light 0 1, Light 1 2],
         [EvTick, Call_GetLights [] (Some ErrNotFound),
          EvTick, Call_GetLights [Light 0 1, Light 1 2] None,
          EvTimeout])"
  by (simp add: lightList_eq broken_loop timeout_first_loop late_loop could_not_find_lights_def
        no_lights_found_def demo_sched_def late_ready_def late_sched_def)

text \<open>
  Claim C7. In any pass through the loop: when the tick is received and \<^verbatim>\<open>GetLights\<close>
  returns no error or \<^verbatim>\<open>ErrNotFound\<close>, the loop goes on with the next select and the
  lights just returned; when it returns any other error, the process ends with
  \<^verbatim>\<open>Could not find lights\<close>; when the timeout is received and the most recent list
  of lights is empty, the process ends with \<^verbatim>\<open>No lights found\<close>. Whenever the loop
  ends the process, so does the command, and no line of the table has been written.
\<close>

theorem polling_errors:
  "(sched i = RecvTick \<and> GetLights cl (tr @ [EvTick]) = (ls, err)
      \<and> (err = None \<or> err = Some ErrNotFound) \<longrightarrow>
      lightList_loop cl sched i lights tr
        = lightList_loop cl sched (Suc i) ls (tr @ [EvTick, Call_GetLights ls err]))
   \<and> (sched i = RecvTick \<and> GetLights cl (tr @ [EvTick]) = (ls, Some e) \<and> e \<noteq> ErrNotFound \<longrightarrow>
        lightList_loop cl sched i lights tr
          = Some (Exit, tr @ [EvTick, Call_GetLights ls (Some e),
                     Log Fatal (Some (''error'', V_error e)) ''Could not find lights'' []]))
   \<and> (sched i = RecvTimeout \<and> lights = [] \<longrightarrow>
        lightList_loop cl sched i lights tr
          = Some (Exit, tr @ [EvTimeout, Log Fatal None ''No lights found'' []]))
   \<and> (\<forall>tr'. lightList_loop cl sched 0 [] tr = Some (Exit, tr') \<longrightarrow>
          lightList cl sched tr = Some (Exit, tr') \<and> table (drop (length tr) tr') = [])"
proof (intro conjI impI allI)
  assume "sched i = RecvTick \<and> GetLights cl (tr @ [EvTick]) = (ls, err)
      \<and> (err = None \<or> err = Some ErrNotFound)"
  then have "sched i = RecvTick" "GetLights cl (tr @ [EvTick]) = (ls, err)" "tolerated err"
    by (simp_all add: tolerated_def)
  then show "lightList_loop cl sched i lights tr
        = lightList_loop cl sched (Suc i) ls (tr @ [EvTick, Call_GetLights ls err])"
    by (rule loop_tick_tolerated)
next
  assume "sched i = RecvTick \<and> GetLights cl (tr @ [EvTick]) = (ls, Some e) \<and> e \<noteq> ErrNotFound"
  then have "sched i = RecvTick" "GetLights cl (tr @ [EvTick]) = (ls, Some e)" "e \<noteq> ErrNotFound"
    by simp_all
  then have "lightList_loop cl sched i lights tr
      = Some (Exit, tr @ [EvTick, Call_GetLights ls (Some e), could_not_find_lights e])"
    by (rule loop_tick_fatal)
  then show "lightList_loop cl sched i lights tr
          = Some (Exit, tr @ [EvTick, Call_GetLights ls (Some e),
                     Log Fatal (Some (''error'', V_error e)) ''Could not find lights'' []])"
    by (simp add: could_not_find_lights_def)
next
  assume "sched i = RecvTimeout \<and> lights = []"
  then show "lightList_loop cl sched i lights tr
          = Some (Exit, tr @ [EvTimeout, Log Fatal None ''No lights found'' []])"
    using loop_timeout_empty [of sched i cl tr] by (simp add: no_lights_found_def)
next
  fix tr'
  assume a: "lightList_loop cl sched 0 [] tr = Some (Exit, tr')"
  then show "lightList cl sched tr = Some (Exit, tr')"
    by (simp add: lightList_eq)
  from loop_trace_no_table [OF a] show "table (drop (length tr) tr') = []"
    by auto
qed

theorem polling_errors_witness:
  "lightList_loop demo_client demo_sched 0 [] []
     = lightList_loop demo_client demo_sched 1 [] [EvTick, Call_GetLights [] (Some ErrNotFound)]
   \<and> lightList_loop broken_client demo_sched 0 [] []
     = Some (Exit, [EvTick, Call_GetLights [] (Some (ErrOther ''network down'')),
                    Log Fatal (Some (''error'', V_error (ErrOther ''network down'')))
                      ''Could not find lights'' []])
   \<and> lightList demo_client timeout_first []
     = Some (Exit, [EvTimeout, Log Fatal None ''No lights found'' []])
   \<and> table [EvTimeout, Log Fatal None ''No lights found'' []] = []"
proof -
  have 1: "demo_sched 0 = RecvTick" "GetLights demo_client ([] @ [EvTick]) = ([], Some ErrNotFound)"
    by (simp_all add: demo_sched_def demo_client_def)
  have 2: "GetLights broken_client ([] @ [EvTick]) = ([], Some (ErrOther ''network down''))"
    by (simp add: broken_client_def)
  have 3: "timeout_first 0 = RecvTimeout"
    by (simp add: timeout_first_def)
  from polling_errors [of demo_sched 0 demo_client "[]" "[]" "Some ErrNotFound" "[]"] 1
  have a: "lightList_loop demo_client demo_sched 0 [] []
     = lightList_loop demo_client demo_sched 1 [] [EvTick, Call_GetLights [] (Some ErrNotFound)]"
    by simp
  from polling_errors [of demo_sched 0 broken_client "[]" "[]" _ "[]" "ErrOther ''network down''"] 1 2
  have b: "lightList_loop broken_client demo_sched 0 [] []
     = Some (Exit, [EvTick, Call_GetLights [] (Some (ErrOther ''network down'')),
                    Log Fatal (Some (''error'', V_error (ErrOther ''network down'')))
                      ''Could not find lights'' []])"
    by simp
  from polling_errors [of timeout_first 0 demo_client "[]" _ _ "[]"] 3
  have c: "lightList_loop demo_client timeout_first 0 [] []
     = Some (Exit, [EvTimeout, Log Fatal None ''No lights found'' []])"
    by simp
  from polling_errors [of timeout_first 0 demo_client "[]" _ _ "[]"] c
  have d: "lightList demo_client timeout_first []
     = Some (Exit, [EvTimeout, Log Fatal None ''No lights found'' []])
     \<and> table [EvTimeout, Log Fatal None ''No lights found'' []] = []"
    by simp
  from a b d show ?thesis by simp
qed

text \<open>
  Claim C8. When the loop ends with the list \<open>lights\<close>, the command returns after
  writing the header row, then for each light, in order, either its row or a warning,
  then an empty line. The row of a light holds its \<^verbatim>\<open>ID()\<close> and the label, power and
  color that \<^verbatim>\<open>GetLabel\<close>, \<^verbatim>\<open>GetPower\<close> and \<^verbatim>\<open>GetColor\<close> returned; a light gets a
  warning instead of a row exactly when one of the three returned an error, and the
  lights after it are still asked and printed.
\<close>

theorem table_rows:
  assumes "lightList_loop cl sched 0 [] tr = Some (Return lights, tr1)"
  shows "\<exists>es as. lightList cl sched tr = Some (Return (), tr1 @ es)
           \<and> as = asks cl (tr1 @ [Fprint Header]) lights
           \<and> es = [Fprint Header] @ concat (map2 light_events lights as) @ [Fprint Blank, Flush]
           \<and> table es = Header # List.map_filter (\<lambda>(l, a). row_of l a) (zip lights as) @ [Blank]
           \<and> warnings es = map (\<lambda>(l, a). ID l) (filter (\<lambda>(l, a). row_of l a = None) (zip lights as))
           \<and> length (table es) + length (warnings es) = length lights + 2"
proof -
  let ?as = "asks cl (tr1 @ [Fprint Header]) lights"
  let ?es = "[Fprint Header] @ concat (map2 light_events lights ?as) @ [Fprint Blank, Flush]"
  have run: "lightList cl sched tr = Some (Return (), tr1 @ ?es)"
    using assms by (simp add: lightList_eq row_events_def)
  have t: "table ?es = Header # List.map_filter (\<lambda>(l, a). row_of l a) (zip lights ?as) @ [Blank]"
    by (simp add: table_of_light_events)
  have w: "warnings ?es
      = map (\<lambda>(l, a). ID l) (filter (\<lambda>(l, a). row_of l a = None) (zip lights ?as))"
    by (simp add: warnings_of_light_events)
  have "length (List.map_filter (\<lambda>(l, a). row_of l a) (zip lights ?as))
      + length (filter (\<lambda>(l, a). row_of l a = None) (zip lights ?as)) = length (zip lights ?as)"
    by (rule rows_and_warnings_count)
  then have n: "length (table ?es) + length (warnings ?es) = length lights + 2"
    unfolding t w by simp
  from run t w n show ?thesis by blast
qed

theorem table_rows_witness:
  "\<exists>es. lightList demo_client demo_sched [] = Some (Return (), es)
      \<and> table es = [Header,
            Row 2 ''lamp'' True \<lparr>Hue = 0, Saturation = 0, Brightness = 65535, Kelvin = 3500\<rparr>,
            Blank]
      \<and> warnings es = [1]"
proof -
  from table_rows [OF demo_loop] show ?thesis
    by (simp add: demo_list)
qed

end
